theory Spec2Isabelle
  imports Main "HOL-Library.Word"
begin

unbundle bit_operations_syntax

section \<open>Data model\<close>

type_synonym u8 = "8 word"
type_synonym u16 = "16 word"
type_synonym u32 = "32 word"

text \<open>
  An access outside an array is undefined behaviour in C++. The model makes it a value:
  a function that indexes \<open>buffUART\<close> or \<open>data\<close> returns \<open>Inl OutOfBounds\<close>
  where the source would read or write past the array. The four elements of
  \<open>address\<close> are only indexed by constants and by \<open>idx - 2\<close> for \<open>idx\<close> from
  2 to 5.
\<close>

datatype fault = OutOfBounds

text \<open>
  \<^verbatim>\<open>Fingerprint.h\<close> is not among the sources. The constants it defines, which
  \<^verbatim>\<open>Fingerprint.cpp\<close> uses by name only, are the fields of this record; every function
  below takes it as its first argument. \<open>FINGERPRINT_STARTCODE\<close> is compared with and
  assigned to the 16-bit field \<open>start_code\<close>, the status and packet-type constants
  with \<open>uint8_t\<close> values, \<open>DEFAULTTIMEOUT\<close> is the default of the \<open>uint16_t\<close>
  parameter \<open>timeout\<close>.
\<close>

record Fingerprint_h =
  FINGERPRINT_OK :: u8
  FINGERPRINT_PACKETRECIEVEERR :: u8
  FINGERPRINT_NOTFOUND :: u8
  FINGERPRINT_TIMEOUT :: u8
  FINGERPRINT_BADPACKET :: u8
  FINGERPRINT_STARTCODE :: u16
  FINGERPRINT_COMMANDPACKET :: u8
  FINGERPRINT_ACKPACKET :: u8
  FINGERPRINT_READSYSPARAM :: u8
  FINGERPRINT_HISPEEDSEARCH :: u8
  DEFAULTTIMEOUT :: u16

text \<open>
  \<open>struct Fingerprint_Packet\<close>: \<open>address\<close> is \<open>uint8_t[4]\<close>, \<open>data\<close> an array
  of \<open>uint8_t\<close> whose size the header fixes; here the size of \<open>data\<close> is the length
  of the list. The field \<open>length\<close> of the source is \<open>length_p\<close>.
\<close>

record Fingerprint_Packet =
  start_code :: u16
  address :: "u8 list"
  type :: u8
  length_p :: u16
  data :: "u8 list"

text \<open>
  \<open>class Fingerprint\<close>. \<open>buffUART\<close> is the receive array, \<open>pe\<close> (write) and
  \<open>pl\<close> (read) are the two cursors, kept as offsets from \<open>buffUART\<close>: the pointer
  \<open>buffUART + k\<close> is the number \<open>k\<close>, and \<open>sizeof(buffUART)\<close> is
  \<open>length (buffUART s)\<close>. \<open>R503Serial\<close> holds the bytes written to the serial
  line so far, oldest first. The header declares the members; their widths here are the
  ones the source shows: the casts \<open>(uint16_t)\<close> and \<open>(uint32_t)\<close> in
  \<open>getParameters\<close>, the value \<open>0xFFFF\<close> given to \<open>fingerID\<close> and
  \<open>confidence\<close>, and bytes for \<open>buffUART\<close>, through which \<open>uint8_t\<close>
  values are stored and loaded.
\<close>

record Fingerprint =
  thePassword :: u32
  theAddress :: u32
  status_reg :: u16
  system_id :: u16
  capacity :: u16
  security_level :: u16
  device_addr :: u32
  packet_len :: u16
  baud_rate :: u16
  fingerID :: u16
  confidence :: u16
  templateCount :: u16
  buffUART :: "u8 list"
  pe :: nat
  pl :: nat
  R503Serial :: "u8 list"

section \<open>Serial output\<close>

definition serial_write :: "u8 list \<Rightarrow> Fingerprint \<Rightarrow> Fingerprint" where
  "serial_write bytes s = s\<lparr>R503Serial := R503Serial s @ bytes\<rparr>"

text \<open>
  The loop of \<open>writeStructuredPacket\<close>:
  \<^verbatim>\<open>for (uint8_t i = 0; i < packet.length; i++) { dataBuffer.push_back(packet.data[i]); sum += packet.data[i]; }\<close>
  The counter is 8 bits wide and the comparison is made on \<open>int\<close>, so with
  \<open>packet.length > 255\<close> the loop has no exit: the result \<open>None\<close> is a call that
  does not return.
\<close>

partial_function (option) writeStructuredPacket_loop ::
  "Fingerprint_Packet \<Rightarrow> u8 \<Rightarrow> u8 list \<Rightarrow> u16 \<Rightarrow> (fault + u8 list \<times> u16) option" where
  "writeStructuredPacket_loop packet i dataBuffer csum =
     (if unat i < unat (length_p packet) then
        (if unat i < length (data packet) then
           writeStructuredPacket_loop packet (i + 1)
             (dataBuffer @ [data packet ! unat i]) (csum + ucast (data packet ! unat i))
         else Some (Inl OutOfBounds))
      else Some (Inr (dataBuffer, csum)))"

declare writeStructuredPacket_loop.simps [code]

definition writeStructuredPacket ::
  "Fingerprint_Packet \<Rightarrow> Fingerprint \<Rightarrow> (fault + Fingerprint) option" where
  "writeStructuredPacket packet s =
     (let wire_length = length_p packet + 2;
          buffer = [ucast (drop_bit 8 (start_code packet)), ucast (start_code packet AND 0xFF),
                    address packet ! 0, address packet ! 1, address packet ! 2, address packet ! 3,
                    type packet,
                    ucast (drop_bit 8 wire_length), ucast (wire_length AND 0xFF)];
          s1 = serial_write buffer s;
          sum0 = ucast (ucast (drop_bit 8 wire_length) :: u8)
                 + ucast (ucast (wire_length AND 0xFF) :: u8) + ucast (type packet)
      in case writeStructuredPacket_loop packet 0 [] sum0 of
           None \<Rightarrow> None
         | Some (Inl e) \<Rightarrow> Some (Inl e)
         | Some (Inr (dataBuffer, csum)) \<Rightarrow>
             (let s2 = (if dataBuffer \<noteq> [] then serial_write dataBuffer s1 else s1);
                  sumBuffer = [ucast (drop_bit 8 csum), ucast (csum AND 0xFF)]
              in Some (Inr (serial_write sumBuffer s2))))"

section \<open>The receive ring\<close>

text \<open>
  \<open>receiveUART\<close> is the receive interrupt handler; its argument is the byte that
  \<open>R503Serial.read\<close> delivers. The store \<open>*pe = c\<close> goes through the cursor as it
  is before the increment, and the cursor is set back to the start of the array only when
  it is greater than \<open>buffUART + sizeof(buffUART)\<close>.
\<close>

definition receiveUART :: "u8 \<Rightarrow> Fingerprint \<Rightarrow> fault + Fingerprint" where
  "receiveUART c s =
     (if pe s < length (buffUART s) then
        (let s1 = s\<lparr>buffUART := (buffUART s)[pe s := c]\<rparr>;
             s2 = s1\<lparr>pe := pe s1 + 1\<rparr>
         in Inr (if pe s2 > length (buffUART s2) then s2\<lparr>pe := 0\<rparr> else s2))
      else Inl OutOfBounds)"

definition readUARTbuff :: "Fingerprint \<Rightarrow> fault + u8 \<times> Fingerprint" where
  "readUARTbuff s =
     (if pl s < length (buffUART s) then
        (let c = buffUART s ! pl s;
             s1 = s\<lparr>pl := pl s + 1\<rparr>
         in Inr (c, if pl s1 > length (buffUART s1) then s1\<lparr>pl := 0\<rparr> else s1))
      else Inl OutOfBounds)"

text \<open>The handler run once for each byte of a list, in order.\<close>

fun arrive :: "u8 list \<Rightarrow> Fingerprint \<Rightarrow> fault + Fingerprint" where
  "arrive [] s = Inr s"
| "arrive (c # cs) s = (case receiveUART c s of Inl e \<Rightarrow> Inl e | Inr s' \<Rightarrow> arrive cs s')"

text \<open>
  The constructor (lines 59 to 76). Its second argument is the object before
  construction: the members the constructor does not assign (\<open>buffUART\<close>,
  \<open>fingerID\<close>, \<open>confidence\<close>, \<open>templateCount\<close>) keep what it holds.
  \<open>R503Serial\<close> is made by the member initialiser: nothing has been written to it.
\<close>

definition Fingerprint_ctor :: "u32 \<Rightarrow> Fingerprint \<Rightarrow> Fingerprint" where
  "Fingerprint_ctor password raw =
     raw\<lparr>thePassword := password, theAddress := 0xFFFFFFFF,
         status_reg := 0, system_id := 0, capacity := 64, security_level := 0,
         device_addr := 0xFFFFFFFF, packet_len := 64, baud_rate := 57600,
         pe := 0, pl := 0, R503Serial := []\<rparr>"

text \<open>\<open>readUARTbuff\<close> called \<open>n\<close> times, the bytes dropped.\<close>

fun reads :: "nat \<Rightarrow> Fingerprint \<Rightarrow> fault + Fingerprint" where
  "reads 0 s = Inr s"
| "reads (Suc n) s = (case readUARTbuff s of Inl e \<Rightarrow> Inl e | Inr (c, s') \<Rightarrow> reads n s')"

section \<open>Receiving a packet\<close>

text \<open>
  The body of the \<open>switch (idx)\<close> of \<open>getStructuredPacket\<close> for one byte, with
  the way control leaves it: \<open>Continue\<close> is the \<open>continue\<close> of case 0, which
  skips \<open>idx++\<close>; \<open>Break\<close> is a \<open>break\<close>, after which \<open>idx++\<close> runs;
  \<open>Return\<close> is a \<open>return\<close> with its status. The operands of
  \<open>(idx - 8) == packet->length\<close> are promoted to \<open>int\<close>.
\<close>

datatype flow =
  Continue Fingerprint_Packet
| Break Fingerprint_Packet
| Return u8 Fingerprint_Packet
| Fault fault

definition switch_idx :: "Fingerprint_h \<Rightarrow> Fingerprint_Packet \<Rightarrow> u16 \<Rightarrow> u8 \<Rightarrow> flow" where
  "switch_idx h packet idx byte =
     (if idx = 0 then
        (if ucast byte \<noteq> drop_bit 8 (FINGERPRINT_STARTCODE h) then Continue packet
         else Break (packet\<lparr>start_code := push_bit 8 (ucast byte)\<rparr>))
      else if idx = 1 then
        (let packet' = packet\<lparr>start_code := start_code packet OR ucast byte\<rparr>
         in if start_code packet' \<noteq> FINGERPRINT_STARTCODE h
            then Return (FINGERPRINT_BADPACKET h) packet'
            else Break packet')
      else if idx = 2 \<or> idx = 3 \<or> idx = 4 \<or> idx = 5 then
        Break (packet\<lparr>address := (address packet)[unat idx - 2 := byte]\<rparr>)
      else if idx = 6 then Break (packet\<lparr>type := byte\<rparr>)
      else if idx = 7 then Break (packet\<lparr>length_p := push_bit 8 (ucast byte)\<rparr>)
      else if idx = 8 then Break (packet\<lparr>length_p := length_p packet OR ucast byte\<rparr>)
      else
        (if unat idx - 9 < length (data packet) then
           (let packet' = packet\<lparr>data := (data packet)[unat idx - 9 := byte]\<rparr>
            in if int (unat idx) - 8 = int (unat (length_p packet'))
               then Return (FINGERPRINT_OK h) packet'
               else Break packet')
         else Fault OutOfBounds))"

text \<open>
  The line is a list of ticks: the \<open>k\<close>-th element holds the bytes for which the
  interrupt handler runs during the \<open>k\<close>-th \<open>ThisThread::sleep_for(1ms)\<close> of the
  call, in order of arrival; after the last element the line is silent. A byte that
  arrives while the parser is not sleeping is in the ring at the next test of
  \<open>pl == pe\<close>, as if it had arrived during the sleep before, or before the call.
\<close>

definition sleep_for_1ms ::
  "u8 list list \<Rightarrow> Fingerprint \<Rightarrow> fault + u8 list list \<times> Fingerprint" where
  "sleep_for_1ms ticks s =
     (case ticks of
        [] \<Rightarrow> Inr ([], s)
      | t # ts \<Rightarrow> (case arrive t s of Inl e \<Rightarrow> Inl e | Inr s' \<Rightarrow> Inr (ts, s')))"

text \<open>
  The two nested loops of \<open>getStructuredPacket\<close>, from the values of \<open>idx\<close> and
  \<open>timer\<close> at the top of the outer loop. \<open>timer\<close> and \<open>idx\<close> are
  \<open>uint16_t\<close>; \<open>timer\<close> is assigned once, before the loops.
\<close>

function getStructuredPacket_loop ::
  "Fingerprint_h \<Rightarrow> u16 \<Rightarrow> u8 list list \<Rightarrow> Fingerprint \<Rightarrow> Fingerprint_Packet \<Rightarrow> u16 \<Rightarrow> u16
   \<Rightarrow> fault + u8 \<times> Fingerprint_Packet \<times> Fingerprint" where
  "getStructuredPacket_loop h timeout ticks s packet idx timer =
     (if pl s = pe s then
        (case sleep_for_1ms ticks s of
           Inl e \<Rightarrow> Inl e
         | Inr (ticks', s') \<Rightarrow>
             if timer + 1 \<ge> timeout then Inr (FINGERPRINT_TIMEOUT h, packet, s')
             else getStructuredPacket_loop h timeout ticks' s' packet idx (timer + 1))
      else
        (case readUARTbuff s of
           Inl e \<Rightarrow> Inl e
         | Inr (byte, s') \<Rightarrow>
             (case switch_idx h packet idx byte of
                Continue packet' \<Rightarrow> getStructuredPacket_loop h timeout ticks s' packet' idx timer
              | Break packet' \<Rightarrow> getStructuredPacket_loop h timeout ticks s' packet' (idx + 1) timer
              | Return r packet' \<Rightarrow> Inr (r, packet', s')
              | Fault e \<Rightarrow> Inl e)))"
  by pat_completeness auto
termination
proof (relation "measures [\<lambda>(h, timeout, ticks, s, packet, idx, timer). unat (timeout - timer - 1),
                           \<lambda>(h, timeout, ticks, s, packet, idx, timer). length (buffUART s) - pl s]",
       goal_cases)
  case 1
  show ?case by simp
next
  case (2 h timeout ticks s packet idx timer x2 ticks' s')
  then have "timeout \<noteq> timer + 1" by auto
  define d where "d = timeout - timer - 1"
  from \<open>timeout \<noteq> timer + 1\<close> have dn: "d \<noteq> 0" by (auto simp: d_def diff_eq_eq)
  have "unat (d - 1) = unat d - 1" using dn by (rule unat_minus_one)
  moreover have "unat d \<noteq> 0" using dn by (simp add: unat_eq_zero)
  ultimately have "unat (d - 1) < unat d" by simp
  moreover have "timeout - (timer + 1) - 1 = d - 1" by (simp add: d_def)
  ultimately show ?case by (simp add: d_def)
next
  case (3 h timeout ticks s packet idx timer x2 byte s' packet')
  then show ?case by (auto simp: readUARTbuff_def Let_def split: if_splits)
next
  case (4 h timeout ticks s packet idx timer x2 byte s' packet')
  then show ?case by (auto simp: readUARTbuff_def Let_def split: if_splits)
qed

declare getStructuredPacket_loop.simps [simp del]

definition getStructuredPacket ::
  "Fingerprint_h \<Rightarrow> Fingerprint_Packet \<Rightarrow> u16 \<Rightarrow> u8 list list \<Rightarrow> Fingerprint
   \<Rightarrow> fault + u8 \<times> Fingerprint_Packet \<times> Fingerprint" where
  "getStructuredPacket h packet timeout ticks s =
     getStructuredPacket_loop h timeout ticks s packet 0 0"

text \<open>
  The same \<open>switch\<close> run over a list of bytes, with no ring and no clock: \<open>Done\<close>
  carries the status of the \<open>return\<close>, the packet and the bytes not read;
  \<open>More\<close> means that the list ended before any \<open>return\<close>.
\<close>

datatype parse =
  Done u8 Fingerprint_Packet "u8 list"
| More Fingerprint_Packet u16
| Stopped fault

fun feed :: "Fingerprint_h \<Rightarrow> Fingerprint_Packet \<Rightarrow> u16 \<Rightarrow> u8 list \<Rightarrow> parse" where
  "feed h packet idx [] = More packet idx"
| "feed h packet idx (byte # bytes) =
     (case switch_idx h packet idx byte of
        Continue packet' \<Rightarrow> feed h packet' idx bytes
      | Break packet' \<Rightarrow> feed h packet' (idx + 1) bytes
      | Return r packet' \<Rightarrow> Done r packet' bytes
      | Fault e \<Rightarrow> Stopped e)"

text \<open>The array \<open>xs\<close> after the bytes \<open>bs\<close> have been stored from index \<open>k\<close> on.\<close>

definition store :: "nat \<Rightarrow> u8 list \<Rightarrow> u8 list \<Rightarrow> u8 list" where
  "store k bs xs = take k xs @ bs @ drop (k + length bs) xs"

text \<open>
  The state of the parser after the bytes \<open>bs\<close>, read from \<open>idx = 0\<close> on: the
  last \<open>idx\<close> bytes are the frame read so far, the length field is made of its bytes 7
  and 8, and the bytes after the ninth are in \<open>data\<close>.
\<close>

definition framed ::
  "Fingerprint_h \<Rightarrow> Fingerprint_Packet \<Rightarrow> u8 list \<Rightarrow> Fingerprint_Packet \<Rightarrow> u16 \<Rightarrow> bool" where
  "framed h q bs q1 i1 \<longleftrightarrow>
     unat i1 \<le> length bs \<and>
     (let pre = take (length bs - unat i1) bs;
          fr = drop (length bs - unat i1) bs
      in (unat i1 = 8 \<longrightarrow> length_p q1 = push_bit 8 (ucast (fr ! 7))) \<and>
         (9 \<le> unat i1 \<longrightarrow>
            take (unat i1 - 9) (data q1) = drop 9 fr \<and> unat i1 - 9 \<le> length (data q1) \<and>
            length_p q1 = push_bit 8 (ucast (fr ! 7)) OR ucast (fr ! 8) \<and>
            (case feed h q 0 (pre @ take 9 fr) of
               More q9 i9 \<Rightarrow> i9 = 9 \<and> length_p q9 = length_p q1 \<and>
                             length (data q9) = length (data q1)
             | Done r q9 rest \<Rightarrow> False
             | Stopped e \<Rightarrow> False)))"

text \<open>
  The cursors of a ring that has not left its array, the bytes received and not yet read,
  and a line whose bytes all fit between the write cursor and the end of the array.
\<close>

definition ring_wf :: "Fingerprint \<Rightarrow> bool" where
  "ring_wf s \<longleftrightarrow> pl s \<le> pe s \<and> pe s \<le> length (buffUART s)"

definition unread :: "Fingerprint \<Rightarrow> u8 list" where
  "unread s = take (pe s - pl s) (drop (pl s) (buffUART s))"

definition fits :: "u8 list list \<Rightarrow> Fingerprint \<Rightarrow> bool" where
  "fits ticks s \<longleftrightarrow> pe s + length (concat ticks) \<le> length (buffUART s)"

text \<open>
  What the parser can read before it gives up: the bytes unread at the top of the loop and
  those of the ticks whose sleep leaves \<open>timer\<close> below \<open>timeout\<close>.
\<close>

definition heard :: "u16 \<Rightarrow> u16 \<Rightarrow> u8 list list \<Rightarrow> Fingerprint \<Rightarrow> u8 list" where
  "heard timeout timer ticks s = unread s @ concat (take (unat timeout - 1 - unat timer) ticks)"

text \<open>The members of the object other than the ring.\<close>

definition session ::
  "Fingerprint \<Rightarrow> (u32 \<times> u32) \<times> (u16 \<times> u16 \<times> u16 \<times> u16) \<times> u32 \<times> (u16 \<times> u16) \<times> (u16 \<times> u16 \<times> u16) \<times> u8 list" where
  "session s =
     ((thePassword s, theAddress s),
      (status_reg s, system_id s, capacity s, security_level s),
      device_addr s, (packet_len s, baud_rate s),
      (fingerID s, confidence s, templateCount s), R503Serial s)"

section \<open>Commands\<close>

text \<open>
  Modelled from the spec: the constructor \<open>Fingerprint_Packet(type, length, data)\<close>,
  which \<^verbatim>\<open>Fingerprint.h\<close> defines and the sources do not hold. Section 3 of the
  specification: \<open>start_code\<close> is the fixed marker, \<open>address\<close> the broadcast value
  (\<open>0xFFFFFFFF\<close>, as \<open>theAddress\<close> in the constructor of the class), \<open>type\<close> and
  \<open>length\<close> are the arguments, \<open>data\<close> holds the payload bytes. \<open>rest\<close> is what
  the remaining elements of the array \<open>data\<close> hold, which no one has assigned.
\<close>

definition Fingerprint_Packet_ctor ::
  "Fingerprint_h \<Rightarrow> u8 \<Rightarrow> u16 \<Rightarrow> u8 list \<Rightarrow> u8 list \<Rightarrow> Fingerprint_Packet" where
  "Fingerprint_Packet_ctor h ty len d rest =
     \<lparr>start_code = FINGERPRINT_STARTCODE h, address = [0xFF, 0xFF, 0xFF, 0xFF],
      type = ty, length_p = len, data = d @ rest\<rparr>"

text \<open>
  The first three statements of the macro \<open>GET_CMD_PACKET\<close>, up to the call of
  \<open>getStructuredPacket\<close> with the default timeout: \<open>args\<close> are the bytes of
  \<open>__VA_ARGS__\<close>.
\<close>

definition send_receive ::
  "Fingerprint_h \<Rightarrow> u8 list \<Rightarrow> u8 list \<Rightarrow> u8 list list \<Rightarrow> Fingerprint
   \<Rightarrow> (fault + u8 \<times> Fingerprint_Packet \<times> Fingerprint) option" where
  "send_receive h args rest ticks s =
     (let packet = Fingerprint_Packet_ctor h (FINGERPRINT_COMMANDPACKET h)
                     (of_nat (length args)) args rest
      in case writeStructuredPacket packet s of
           None \<Rightarrow> None
         | Some (Inl e) \<Rightarrow> Some (Inl e)
         | Some (Inr s1) \<Rightarrow> Some (getStructuredPacket h packet (DEFAULTTIMEOUT h) ticks s1))"

text \<open>
  The whole macro. \<open>Inl (r, s)\<close> is one of its two \<open>return\<close> statements, with the
  value returned; \<open>Inr (packet, s)\<close> is control reaching the statement after the
  macro.
\<close>

definition GET_CMD_PACKET ::
  "Fingerprint_h \<Rightarrow> u8 list \<Rightarrow> u8 list \<Rightarrow> u8 list list \<Rightarrow> Fingerprint
   \<Rightarrow> (fault + (u8 \<times> Fingerprint) + (Fingerprint_Packet \<times> Fingerprint)) option" where
  "GET_CMD_PACKET h args rest ticks s =
     (case send_receive h args rest ticks s of
        None \<Rightarrow> None
      | Some (Inl e) \<Rightarrow> Some (Inl e)
      | Some (Inr (r, packet, s')) \<Rightarrow>
          Some (Inr (if r \<noteq> FINGERPRINT_OK h then Inl (FINGERPRINT_PACKETRECIEVEERR h, s')
                     else if type packet \<noteq> FINGERPRINT_ACKPACKET h
                          then Inl (FINGERPRINT_PACKETRECIEVEERR h, s')
                     else Inr (packet, s'))))"

text \<open>
  The statements of \<open>getParameters\<close> after the macro. They read \<open>packet.data[0]\<close>
  to \<open>packet.data[16]\<close>.
\<close>

definition getParameters_fields :: "Fingerprint_Packet \<Rightarrow> Fingerprint \<Rightarrow> Fingerprint" where
  "getParameters_fields packet s =
     (let s1 = s\<lparr>status_reg := push_bit 8 (ucast (data packet ! 1)) OR ucast (data packet ! 2)\<rparr>;
          s2 = s1\<lparr>system_id := push_bit 8 (ucast (data packet ! 3)) OR ucast (data packet ! 4)\<rparr>;
          s3 = s2\<lparr>capacity := push_bit 8 (ucast (data packet ! 5)) OR ucast (data packet ! 6)\<rparr>;
          s4 = s3\<lparr>security_level := push_bit 8 (ucast (data packet ! 7)) OR ucast (data packet ! 8)\<rparr>;
          s5 = s4\<lparr>device_addr := push_bit 24 (ucast (data packet ! 9))
                                   OR push_bit 16 (ucast (data packet ! 10))
                                   OR push_bit 8 (ucast (data packet ! 11))
                                   OR ucast (data packet ! 12)\<rparr>;
          s6 = s5\<lparr>packet_len := push_bit 8 (ucast (data packet ! 13)) OR ucast (data packet ! 14)\<rparr>;
          s7 = (if packet_len s6 = 0 then s6\<lparr>packet_len := 32\<rparr>
                else if packet_len s6 = 1 then s6\<lparr>packet_len := 64\<rparr>
                else if packet_len s6 = 2 then s6\<lparr>packet_len := 128\<rparr>
                else if packet_len s6 = 3 then s6\<lparr>packet_len := 256\<rparr>
                else s6)
      in s7\<lparr>baud_rate := (push_bit 8 (ucast (data packet ! 15)) OR ucast (data packet ! 16)) * 9600\<rparr>)"

definition getParameters ::
  "Fingerprint_h \<Rightarrow> u8 list \<Rightarrow> u8 list list \<Rightarrow> Fingerprint \<Rightarrow> (fault + u8 \<times> Fingerprint) option" where
  "getParameters h rest ticks s =
     (case GET_CMD_PACKET h [FINGERPRINT_READSYSPARAM h] rest ticks s of
        None \<Rightarrow> None
      | Some (Inl e) \<Rightarrow> Some (Inl e)
      | Some (Inr (Inl (r, s'))) \<Rightarrow> Some (Inr (r, s'))
      | Some (Inr (Inr (packet, s'))) \<Rightarrow>
          if length (data packet) < 17 then Some (Inl OutOfBounds)
          else Some (Inr (data packet ! 0, getParameters_fields packet s')))"




section \<open>Values for evaluation\<close>

text \<open>
  One assignment of the constants of the header, the one of the sensor's protocol, an
  object whose memory is zero before construction, with a receive array of \<open>n\<close> bytes,
  and the object the constructor makes of it. They serve to evaluate the functions above
  at concrete inputs; the general theorems hold for every header and every object.
\<close>

definition R503_h :: Fingerprint_h where
  "R503_h =
     \<lparr>FINGERPRINT_OK = 0x00, FINGERPRINT_PACKETRECIEVEERR = 0x01, FINGERPRINT_NOTFOUND = 0x09,
      FINGERPRINT_TIMEOUT = 0xFF, FINGERPRINT_BADPACKET = 0xFE, FINGERPRINT_STARTCODE = 0xEF01,
      FINGERPRINT_COMMANDPACKET = 0x01, FINGERPRINT_ACKPACKET = 0x07,
      FINGERPRINT_READSYSPARAM = 0x0F, FINGERPRINT_HISPEEDSEARCH = 0x1B,
      DEFAULTTIMEOUT = 1000\<rparr>"

definition zeroed :: "nat \<Rightarrow> Fingerprint" where
  "zeroed n =
     \<lparr>thePassword = 0, theAddress = 0, status_reg = 0, system_id = 0, capacity = 0,
      security_level = 0, device_addr = 0, packet_len = 0, baud_rate = 0, fingerID = 0,
      confidence = 0, templateCount = 0, buffUART = replicate n 0, pe = 0, pl = 0,
      R503Serial = []\<rparr>"

definition fresh :: "nat \<Rightarrow> Fingerprint" where
  "fresh n = Fingerprint_ctor 0 (zeroed n)"

text \<open>The request packet of \<open>getParameters\<close>, in a \<open>data\<close> array of 64 bytes.\<close>

definition request :: Fingerprint_Packet where
  "request = Fingerprint_Packet_ctor R503_h (FINGERPRINT_COMMANDPACKET R503_h) 1
               [FINGERPRINT_READSYSPARAM R503_h] (replicate 63 0)"

text \<open>
  Two reply frames of the sensor: to \<open>getParameters\<close>, with the byte \<open>c\<close> as the
  low byte of the packet-length code (status Ok, capacity 64, baud code 6), and to
  \<open>fingerFastSearch\<close>, with the status NotFound.
\<close>

definition reply_code :: "u8 \<Rightarrow> u8 list" where
  "reply_code c =
     [0xEF, 0x01, 0xFF, 0xFF, 0xFF, 0xFF, 0x07, 0x00, 0x13,
      0x00, 0x00, 0x00, 0x00, 0x00, 0x00, 0x40, 0x00, 0x00, 0x00, 0x00, 0x00, 0x00, 0x00, c, 0x00, 0x06,
      0x00, 0x60 + c]"


section \<open>Bytes of 16-bit values\<close>

lemma unat_u16_bound: "unat (w::u16) < 65536"
  using unsigned_less [of w, where 'a = nat] by simp

lemma unat_u8_bound: "unat (b::u8) < 256"
  using unsigned_less [of b, where 'a = nat] by simp

lemma unat_hi8: "unat (ucast (drop_bit 8 (w::u16)) :: u8) = unat w div 256"
proof -
  have "unat w div 256 < 256" using unat_u16_bound [of w] by simp
  moreover have "unat (ucast (drop_bit 8 w) :: u8) = take_bit 8 (drop_bit 8 (unat w))"
    by (simp only: unsigned_ucast_eq unat_drop_bit_eq) simp
  ultimately show ?thesis
    by (simp add: take_bit_eq_mod drop_bit_eq_div)
qed

lemma mask8: "(0xFF :: 'a::len word) = mask 8"
  by (simp add: mask_eq_exp_minus_1)

lemma lo8_ucast: "(ucast ((w::u16) AND 0xFF) :: u8) = ucast w"
  unfolding mask8 by (rule bit_word_eqI) (auto simp: bit_simps)

lemma unat_lo8: "unat (ucast ((w::u16) AND 0xFF) :: u8) = unat w mod 256"
  by (simp add: lo8_ucast unsigned_ucast_eq take_bit_eq_mod)

lemma unat_ucast_up: "unat (ucast (b::u8) :: u16) = unat b"
  using unat_u8_bound [of b] by (simp add: unsigned_ucast_eq take_bit_eq_mod)

lemma unat_inc8: "unat (i::u8) < 255 \<Longrightarrow> unat (i + 1) = unat i + 1"
  by (simp add: unat_word_ariths)

lemma writeStructuredPacket_loop_returns:
  "unat (length_p p) \<le> 255 \<Longrightarrow> unat (length_p p) \<le> length (data p) \<Longrightarrow> unat i \<le> unat (length_p p) \<Longrightarrow>
   writeStructuredPacket_loop p i buf c =
     Some (Inr (buf @ drop (unat i) (take (unat (length_p p)) (data p)),
                c + of_nat (sum_list (map unat (drop (unat i) (take (unat (length_p p)) (data p)))))))"
proof (induction "unat (length_p p) - unat i" arbitrary: i buf c)
  case 0
  then show ?case by (subst writeStructuredPacket_loop.simps) simp
next
  case (Suc n)
  then have lt: "unat i < unat (length_p p)" by simp
  then have i1: "unat (i + 1) = unat i + 1" using Suc.prems by (intro unat_inc8) simp
  have n: "n = unat (length_p p) - unat (i + 1)" using Suc.hyps(2) i1 by simp
  have le: "unat (i + 1) \<le> unat (length_p p)" using lt i1 by simp
  have dr: "drop (unat i) (take (unat (length_p p)) (data p)) =
        data p ! unat i # drop (unat i + 1) (take (unat (length_p p)) (data p))"
    using lt Suc.prems by (simp add: Cons_nth_drop_Suc [symmetric])
  show ?case
    apply (subst writeStructuredPacket_loop.simps)
    using lt Suc.prems Suc.hyps(1)[OF n Suc.prems(1) Suc.prems(2) le]
    apply (simp add: i1 dr)
    done
qed

lemma unat_checksum:
  "unat ((ucast (a::u8) :: u16) + ucast (b::u8) + ucast (c::u8) + of_nat n) =
     (unat a + unat b + unat c + n) mod 65536"
  by (simp add: unat_word_ariths unat_of_nat unat_ucast_up mod_simps)

lemma unat_wire_length: "unat (l::u16) \<le> 255 \<Longrightarrow> unat (l + 2) = unat l + 2"
  by (simp add: unat_word_ariths)

lemma writeStructuredPacket_bytes:
  assumes "length (address packet) = 4"
      and "unat (length_p packet) \<le> length (data packet)"
      and "unat (length_p packet) \<le> 255"
  shows "writeStructuredPacket packet s =
     Some (Inr (s\<lparr>R503Serial := R503Serial s @
        [ucast (drop_bit 8 (start_code packet)), ucast (start_code packet AND 0xFF)] @
        address packet @
        [type packet, ucast (drop_bit 8 (length_p packet + 2)), ucast (length_p packet + 2 AND 0xFF)] @
        take (unat (length_p packet)) (data packet) @
        [ucast (drop_bit 8
           (ucast (ucast (drop_bit 8 (length_p packet + 2)) :: u8)
            + ucast (ucast (length_p packet + 2 AND 0xFF) :: u8)
            + ucast (type packet)
            + (of_nat (sum_list (map unat (take (unat (length_p packet)) (data packet)))) :: u16))),
         ucast ((ucast (ucast (drop_bit 8 (length_p packet + 2)) :: u8)
            + ucast (ucast (length_p packet + 2 AND 0xFF) :: u8)
            + ucast (type packet)
            + (of_nat (sum_list (map unat (take (unat (length_p packet)) (data packet)))) :: u16)) AND 0xFF)]\<rparr>))"
proof -
  obtain a0 a1 a2 a3 where addr: "address packet = [a0, a1, a2, a3]"
    using assms(1) by (auto simp: length_Suc_conv numeral_eq_Suc)
  have loop: "writeStructuredPacket_loop packet 0 [] c =
      Some (Inr (take (unat (length_p packet)) (data packet),
                 c + of_nat (sum_list (map unat (take (unat (length_p packet)) (data packet))))))" for c
    using writeStructuredPacket_loop_returns [of packet 0 "[]" c] assms by simp
  show ?thesis
    by (simp add: writeStructuredPacket_def Let_def loop serial_write_def addr)
qed



section \<open>The serializer\<close>

text \<open>
  For every packet whose payload length is at most the size of its \<open>data\<close> array
  and at most 255 (the range of the 8-bit loop counter), \<open>writeStructuredPacket\<close>
  returns, and what it has appended to the serial line is, in order: the start code, high
  byte first; the four address bytes; the type byte; the wire length \<open>length + 2\<close>,
  high byte first; the payload bytes; the checksum, high byte first, where the checksum is
  the sum of the two wire-length bytes, the type byte and the payload bytes modulo 65536.
  Nothing else of the object changes.
\<close>

theorem writeStructuredPacket_emits:
  assumes "length (address packet) = 4"
      and "unat (length_p packet) \<le> length (data packet)"
      and "unat (length_p packet) \<le> 255"
  shows "\<exists>bytes.
           writeStructuredPacket packet s = Some (Inr (s\<lparr>R503Serial := R503Serial s @ bytes\<rparr>)) \<and>
           map unat bytes =
             [unat (start_code packet) div 256, unat (start_code packet) mod 256] @
             map unat (address packet) @
             [unat (type packet)] @
             [(unat (length_p packet) + 2) div 256, (unat (length_p packet) + 2) mod 256] @
             map unat (take (unat (length_p packet)) (data packet)) @
             [((unat (length_p packet) + 2) div 256 + (unat (length_p packet) + 2) mod 256
                + unat (type packet)
                + sum_list (map unat (take (unat (length_p packet)) (data packet)))) mod 65536 div 256,
              ((unat (length_p packet) + 2) div 256 + (unat (length_p packet) + 2) mod 256
                + unat (type packet)
                + sum_list (map unat (take (unat (length_p packet)) (data packet)))) mod 65536 mod 256]"
proof -
  let ?n = "unat (length_p packet)"
  let ?payload = "take ?n (data packet)"
  let ?wl = "length_p packet + 2"
  let ?ck = "ucast (ucast (drop_bit 8 ?wl) :: u8) + ucast (ucast (?wl AND 0xFF) :: u8)
             + ucast (type packet) + (of_nat (sum_list (map unat ?payload)) :: u16)"
  let ?bytes = "[ucast (drop_bit 8 (start_code packet)), ucast (start_code packet AND 0xFF)] @
                address packet @ [type packet, ucast (drop_bit 8 ?wl), ucast (?wl AND 0xFF)] @
                ?payload @ [ucast (drop_bit 8 ?ck), ucast (?ck AND 0xFF)]"
  have run: "writeStructuredPacket packet s = Some (Inr (s\<lparr>R503Serial := R503Serial s @ ?bytes\<rparr>))"
    by (simp only: writeStructuredPacket_bytes [OF assms])
  have wl: "unat ?wl = ?n + 2"
    using assms(3) by (rule unat_wire_length)
  have ck: "unat ?ck = ((?n + 2) div 256 + (?n + 2) mod 256 + unat (type packet)
                         + sum_list (map unat ?payload)) mod 65536"
    by (simp only: unat_checksum unat_hi8 unat_lo8 wl)
  have "map unat ?bytes =
             [unat (start_code packet) div 256, unat (start_code packet) mod 256] @
             map unat (address packet) @
             [unat (type packet)] @
             [(?n + 2) div 256, (?n + 2) mod 256] @
             map unat ?payload @
             [unat ?ck div 256, unat ?ck mod 256]"
    by (simp only: map_append list.map unat_hi8 unat_lo8 wl) simp
  with run show ?thesis unfolding ck by blast
qed


theorem writeStructuredPacket_emits_witness:
  "length (address (Fingerprint_Packet_ctor R503_h 1 1 [0x0F] (replicate 63 0))) = 4 \<and>
   unat (length_p (Fingerprint_Packet_ctor R503_h 1 1 [0x0F] (replicate 63 0)))
     \<le> length (data (Fingerprint_Packet_ctor R503_h 1 1 [0x0F] (replicate 63 0))) \<and>
   unat (length_p (Fingerprint_Packet_ctor R503_h 1 1 [0x0F] (replicate 63 0))) \<le> 255 \<and>
   (\<exists>bytes.
      writeStructuredPacket (Fingerprint_Packet_ctor R503_h 1 1 [0x0F] (replicate 63 0)) (fresh 64)
        = Some (Inr ((fresh 64)\<lparr>R503Serial := R503Serial (fresh 64) @ bytes\<rparr>)) \<and>
      map unat bytes = [239, 1, 255, 255, 255, 255, 1, 0, 3, 15, 0, 19])"
  using writeStructuredPacket_emits
          [of "Fingerprint_Packet_ctor R503_h 1 1 [0x0F] (replicate 63 0)" "fresh 64"]
  by (simp add: Fingerprint_Packet_ctor_def R503_h_def)

text \<open>
  Above 255 the loop has no exit through its condition: the counter \<open>i\<close> is a
  \<open>uint8_t\<close>, so \<open>i < packet.length\<close> is true at every value it takes. The call
  then either never returns or reads past the array \<open>data\<close>; in neither case is a
  payload or a checksum sent.
\<close>

lemma writeStructuredPacket_loop_exit:
  assumes "writeStructuredPacket_loop packet i dataBuffer csum = Some y"
  shows "(\<exists>r. y = Inr r) \<longrightarrow> unat (length_p packet) \<le> 255"
proof (rule writeStructuredPacket_loop.raw_induct
         [where P = "\<lambda>packet i dataBuffer csum y.
                       (\<exists>r. y = Inr r) \<longrightarrow> unat (length_p packet) \<le> 255",
          OF _ assms])
  fix loop :: "Fingerprint_Packet \<Rightarrow> u8 \<Rightarrow> u8 list \<Rightarrow> u16 \<Rightarrow> (fault + u8 list \<times> u16) option"
    and packet i dataBuffer csum y
  assume IH: "\<And>packet i dataBuffer csum y. loop packet i dataBuffer csum = Some y \<Longrightarrow>
                (\<exists>r. y = Inr r) \<longrightarrow> unat (length_p packet) \<le> 255"
    and eq: "(if unat i < unat (length_p packet) then
               (if unat i < length (data packet) then
                  loop packet (i + 1) (dataBuffer @ [data packet ! unat i])
                    (csum + ucast (data packet ! unat i))
                else Some (Inl OutOfBounds))
             else Some (Inr (dataBuffer, csum))) = Some y"
  have small: "unat i < 256" by (rule unat_u8_bound)
  show "(\<exists>r. y = Inr r) \<longrightarrow> unat (length_p packet) \<le> 255"
  proof (cases "unat i < unat (length_p packet)")
    case False
    with small show ?thesis by simp
  next
    case True
    show ?thesis
    proof (cases "unat i < length (data packet)")
      case False
      with True eq show ?thesis by auto
    next
      case inb: True
      with True eq have "loop packet (i + 1) (dataBuffer @ [data packet ! unat i])
                          (csum + ucast (data packet ! unat i)) = Some y"
        by simp
      from IH [OF this] show ?thesis .
    qed
  qed
qed

lemma writeStructuredPacket_long:
  assumes "255 < unat (length_p packet)"
  shows "writeStructuredPacket packet s \<noteq> Some (Inr s')"
proof -
  have "writeStructuredPacket_loop packet 0 [] c \<noteq> Some (Inr r)" for c r
    using writeStructuredPacket_loop_exit [of packet 0 "[]" c "Inr r"] assms by auto
  then show ?thesis
    by (auto simp add: writeStructuredPacket_def Let_def split: option.splits sum.splits)
qed


section \<open>The ring while it stays inside its array\<close>

lemma readUARTbuff_unread:
  assumes "ring_wf s" "pl s \<noteq> pe s"
  shows "readUARTbuff s = Inr (buffUART s ! pl s, s\<lparr>pl := Suc (pl s)\<rparr>)"
    and "unread s = buffUART s ! pl s # unread (s\<lparr>pl := Suc (pl s)\<rparr>)"
    and "ring_wf (s\<lparr>pl := Suc (pl s)\<rparr>)"
proof -
  from assms have lt: "pl s < pe s" "pe s \<le> length (buffUART s)"
    by (auto simp: ring_wf_def)
  then show "readUARTbuff s = Inr (buffUART s ! pl s, s\<lparr>pl := Suc (pl s)\<rparr>)"
    by (simp add: readUARTbuff_def Let_def)
  from lt obtain k where k: "pe s - pl s = Suc k" by (cases "pe s - pl s") auto
  then have k': "pe s - Suc (pl s) = k" by simp
  from lt k show "unread s = buffUART s ! pl s # unread (s\<lparr>pl := Suc (pl s)\<rparr>)"
    by (simp add: unread_def Cons_nth_drop_Suc [symmetric] k')
  from lt show "ring_wf (s\<lparr>pl := Suc (pl s)\<rparr>)" by (simp add: ring_wf_def)
qed

lemma receiveUART_unread:
  assumes "ring_wf s" "pe s < length (buffUART s)"
  shows "receiveUART c s = Inr (s\<lparr>buffUART := (buffUART s)[pe s := c], pe := Suc (pe s)\<rparr>)"
    and "unread (s\<lparr>buffUART := (buffUART s)[pe s := c], pe := Suc (pe s)\<rparr>) = unread s @ [c]"
    and "ring_wf (s\<lparr>buffUART := (buffUART s)[pe s := c], pe := Suc (pe s)\<rparr>)"
proof -
  from assms have le: "pl s \<le> pe s" by (simp add: ring_wf_def)
  show "receiveUART c s = Inr (s\<lparr>buffUART := (buffUART s)[pe s := c], pe := Suc (pe s)\<rparr>)"
    using assms(2) by (simp add: receiveUART_def Let_def)
  have d: "drop (pl s) ((buffUART s)[pe s := c]) = (drop (pl s) (buffUART s))[pe s - pl s := c]"
    using le by (simp add: drop_update_swap)
  have len: "pe s - pl s < length (drop (pl s) (buffUART s))"
    using le assms(2) by simp
  have "take (Suc (pe s - pl s)) ((drop (pl s) (buffUART s))[pe s - pl s := c])
          = take (pe s - pl s) (drop (pl s) (buffUART s)) @ [c]"
    using len by (simp add: take_Suc_conv_app_nth)
  then show "unread (s\<lparr>buffUART := (buffUART s)[pe s := c], pe := Suc (pe s)\<rparr>) = unread s @ [c]"
    using le by (simp add: unread_def d Suc_diff_le)
  show "ring_wf (s\<lparr>buffUART := (buffUART s)[pe s := c], pe := Suc (pe s)\<rparr>)"
    using assms by (simp add: ring_wf_def)
qed

lemma receiveUART_Inr:
  assumes "ring_wf s" "receiveUART c s = Inr s'"
  shows "ring_wf s' \<and> unread s' = unread s @ [c] \<and> pe s' = Suc (pe s) \<and> pl s' = pl s
         \<and> length (buffUART s') = length (buffUART s) \<and> session s' = session s"
proof -
  from assms(2) have lt: "pe s < length (buffUART s)"
    by (auto simp: receiveUART_def split: if_splits)
  from receiveUART_unread [OF assms(1) lt, of c] assms(2)
  show ?thesis by (auto simp: session_def)
qed

lemma receiveUART_Inl:
  "receiveUART c s = Inl e \<Longrightarrow> length (buffUART s) \<le> pe s"
  by (auto simp: receiveUART_def Let_def split: if_splits)

lemma arrive_Inr:
  "ring_wf s \<Longrightarrow> arrive cs s = Inr s' \<Longrightarrow>
     ring_wf s' \<and> unread s' = unread s @ cs \<and> pe s' = pe s + length cs \<and> pl s' = pl s
     \<and> length (buffUART s') = length (buffUART s) \<and> session s' = session s"
proof (induction cs arbitrary: s)
  case Nil
  then show ?case by simp
next
  case (Cons c cs)
  from Cons.prems(2) obtain s1 where s1: "receiveUART c s = Inr s1" "arrive cs s1 = Inr s'"
    by (auto split: sum.splits)
  from receiveUART_Inr [OF Cons.prems(1) s1(1)] Cons.IH [OF _ s1(2)]
  show ?case by simp
qed

lemma arrive_Inl:
  "ring_wf s \<Longrightarrow> arrive cs s = Inl e \<Longrightarrow> length (buffUART s) < pe s + length cs"
proof (induction cs arbitrary: s)
  case Nil
  then show ?case by simp
next
  case (Cons c cs)
  show ?case
  proof (cases "receiveUART c s")
    case (Inl e')
    then show ?thesis using receiveUART_Inl [OF Inl] by simp
  next
    case (Inr s1)
    with Cons.prems(2) have "arrive cs s1 = Inl e" by simp
    from Cons.IH [OF _ this] receiveUART_Inr [OF Cons.prems(1) Inr]
    show ?thesis by simp
  qed
qed

lemma arrive_fits:
  "ring_wf s \<Longrightarrow> pe s + length cs \<le> length (buffUART s) \<Longrightarrow> \<exists>s'. arrive cs s = Inr s'"
  by (cases "arrive cs s") (auto dest: arrive_Inl)

lemma readUARTbuff_session:
  "readUARTbuff s = Inr (b, s') \<Longrightarrow> session s' = session s"
  by (auto simp: readUARTbuff_def Let_def session_def split: if_splits)

section \<open>The parser and the list of bytes it reads\<close>

lemma feed_Done_status:
  "feed h p idx bs = Done r p' rest \<Longrightarrow> r = FINGERPRINT_OK h \<or> r = FINGERPRINT_BADPACKET h"
  by (induction bs arbitrary: p idx) (auto simp: switch_idx_def Let_def split: flow.splits if_splits)


lemma sleep_for_1ms_Inr:
  assumes "ring_wf s" "sleep_for_1ms ticks s = Inr (ticks', s')"
  shows "ring_wf s' \<and> unread s' = unread s @ concat (take 1 ticks) \<and> ticks' = drop 1 ticks
         \<and> pl s' = pl s \<and> session s' = session s
         \<and> pe s' + length (concat ticks') = pe s + length (concat ticks)
         \<and> length (buffUART s') = length (buffUART s)"
proof (cases ticks)
  case Nil
  with assms show ?thesis by (simp add: sleep_for_1ms_def)
next
  case (Cons t ts)
  with assms(2) have "arrive t s = Inr s'" "ticks' = ts"
    by (auto simp: sleep_for_1ms_def split: sum.splits)
  with arrive_Inr [OF assms(1) this(1)] Cons show ?thesis by simp
qed

lemma sleep_for_1ms_Inl:
  assumes "ring_wf s" "sleep_for_1ms ticks s = Inl e"
  shows "\<not> fits ticks s"
proof (cases ticks)
  case Nil
  with assms show ?thesis by (simp add: sleep_for_1ms_def)
next
  case (Cons t ts)
  with assms(2) have "arrive t s = Inl e"
    by (auto simp: sleep_for_1ms_def split: sum.splits)
  from arrive_Inl [OF assms(1) this] Cons show ?thesis by (simp add: fits_def)
qed

lemma unat_inc16: "unat (t::u16) < 65535 \<Longrightarrow> unat (t + 1) = Suc (unat t)"
  by (simp add: unat_word_ariths)

lemma getStructuredPacket_loop_feed:
  assumes "ring_wf s" "unat timer < 65535"
  shows "case getStructuredPacket_loop h timeout ticks s packet idx timer of
           Inl e \<Rightarrow> feed h packet idx (heard timeout timer ticks s) = Stopped e \<or> \<not> fits ticks s
         | Inr (r, packet', s') \<Rightarrow>
             ring_wf s' \<and> session s' = session s \<and>
             (case feed h packet idx (heard timeout timer ticks s) of
                Done r0 p0 rest \<Rightarrow>
                  r = r0 \<and> packet' = p0 \<and>
                  pl s' + length rest = pl s + length (heard timeout timer ticks s)
              | More p0 i0 \<Rightarrow> r = FINGERPRINT_TIMEOUT h \<and> packet' = p0
              | Stopped e \<Rightarrow> False)"
  using assms
proof (induction h timeout ticks s packet idx timer rule: getStructuredPacket_loop.induct)
  case (1 h timeout ticks s packet idx timer)
  note wf = \<open>ring_wf s\<close> and tm = \<open>unat timer < 65535\<close>
  note inc = unat_inc16 [OF tm]
  show ?case
  proof (cases "pl s = pe s")
    case True
    then have un: "unread s = []" by (simp add: unread_def)
    show ?thesis
    proof (cases "sleep_for_1ms ticks s")
      case (Inl e)
      from sleep_for_1ms_Inl [OF wf Inl] True Inl show ?thesis
        by (subst getStructuredPacket_loop.simps) simp
    next
      case (Inr x)
      obtain ticks' s1 where x: "x = (ticks', s1)" by (cases x)
      note sl = sleep_for_1ms_Inr [OF wf Inr [unfolded x]]
      show ?thesis
      proof (cases "timeout \<le> timer + 1")
        case le: True
        then have "unat timeout - 1 - unat timer = 0"
          by (simp add: word_le_nat_alt inc)
        then have "heard timeout timer ticks s = []" by (simp add: heard_def un)
        with True Inr x le sl show ?thesis
          by (subst getStructuredPacket_loop.simps) simp
      next
        case gt: False
        then have lt: "Suc (unat timer) < unat timeout"
          by (simp add: word_le_nat_alt inc)
        then obtain B where B: "unat timeout - Suc (unat timer) = Suc B"
                                "unat timeout - Suc (unat (timer + 1)) = B"
          by (cases "unat timeout - Suc (unat timer)") (auto simp: inc)
        have hd: "heard timeout (timer + 1) ticks' s1 = heard timeout timer ticks s"
          using sl by (cases ticks) (simp_all add: heard_def B un)
        have "pe s1 + length (concat ticks') = pe s + length (concat ticks)"
             "length (buffUART s1) = length (buffUART s)"
          using sl by blast+
        then have ft: "fits ticks' s1 = fits ticks s"
          by (simp only: fits_def)
        have tm': "unat (timer + 1) < 65535"
          using lt unat_u16_bound [of timeout] by (simp add: inc)
        have run: "getStructuredPacket_loop h timeout ticks s packet idx timer =
                   getStructuredPacket_loop h timeout ticks' s1 packet idx (timer + 1)"
          using True Inr x gt by (subst getStructuredPacket_loop.simps) simp
        have eqs: "pl s1 = pl s" "session s1 = session s" and wf1: "ring_wf s1"
          using sl by blast+
        from "1.IH"(1) [OF True Inr x [symmetric] gt wf1 tm']
        show ?thesis
          unfolding run hd ft eqs .
      qed
    qed
  next
    case False
    let ?b = "buffUART s ! pl s"
    let ?s1 = "s\<lparr>pl := Suc (pl s)\<rparr>"
    note rd = readUARTbuff_unread [OF wf False]
    have hd: "heard timeout timer ticks s = ?b # heard timeout timer ticks ?s1"
      by (simp add: heard_def rd(2))
    have ft: "fits ticks ?s1 = fits ticks s" by (simp add: fits_def)
    have ss: "session ?s1 = session s" by (simp add: session_def)
    show ?thesis
    proof (cases "switch_idx h packet idx ?b")
      case (Continue p1)
      have run: "getStructuredPacket_loop h timeout ticks s packet idx timer =
                 getStructuredPacket_loop h timeout ticks ?s1 p1 idx timer"
        using False rd(1) Continue by (subst getStructuredPacket_loop.simps) simp
      from "1.IH"(2) [OF False rd(1) refl Continue rd(3) tm]
      show ?thesis
        unfolding run hd using Continue by (auto simp: ft ss split: sum.splits parse.splits)
    next
      case (Break p1)
      have run: "getStructuredPacket_loop h timeout ticks s packet idx timer =
                 getStructuredPacket_loop h timeout ticks ?s1 p1 (idx + 1) timer"
        using False rd(1) Break by (subst getStructuredPacket_loop.simps) simp
      from "1.IH"(3) [OF False rd(1) refl Break rd(3) tm]
      show ?thesis
        unfolding run hd using Break by (auto simp: ft ss split: sum.splits parse.splits)
    next
      case (Return r p1)
      have run: "getStructuredPacket_loop h timeout ticks s packet idx timer = Inr (r, p1, ?s1)"
        using False rd(1) Return by (subst getStructuredPacket_loop.simps) simp
      show ?thesis
        unfolding run hd using Return rd(3) by (simp add: ss)
    next
      case (Fault e)
      have run: "getStructuredPacket_loop h timeout ticks s packet idx timer = Inl e"
        using False rd(1) Fault by (subst getStructuredPacket_loop.simps) simp
      show ?thesis
        unfolding run hd using Fault by simp
    qed
  qed
qed


lemma feed_append:
  "feed h q idx (bs @ cs) =
     (case feed h q idx bs of
        More q1 i1 \<Rightarrow> feed h q1 i1 cs
      | Done r q' rest \<Rightarrow> Done r q' (rest @ cs)
      | Stopped e \<Rightarrow> Stopped e)"
  by (induction bs arbitrary: q idx) (auto split: flow.splits)

lemma switch_idx_data:
  assumes "9 \<le> unat idx"
  shows "switch_idx h q idx b =
     (if unat idx - 9 < length (data q) then
        (if unat idx - 8 = unat (length_p q)
         then Return (FINGERPRINT_OK h) (q\<lparr>data := (data q)[unat idx - 9 := b]\<rparr>)
         else Break (q\<lparr>data := (data q)[unat idx - 9 := b]\<rparr>))
      else Fault OutOfBounds)"
proof -
  have ne: "idx \<noteq> 0" "idx \<noteq> 1" "idx \<noteq> 2" "idx \<noteq> 3" "idx \<noteq> 4" "idx \<noteq> 5"
           "idx \<noteq> 6" "idx \<noteq> 7" "idx \<noteq> 8"
    using assms by auto
  have "(int (unat idx) - 8 = int (unat (length_p q))) = (unat idx - 8 = unat (length_p q))"
    using assms by arith
  then show ?thesis
    by (simp add: switch_idx_def ne Let_def)
qed

lemma store_Nil: "store k [] xs = xs"
  by (simp add: store_def)

lemma store_Cons:
  "k < length xs \<Longrightarrow> store (Suc k) bs (xs[k := b]) = store k (b # bs) xs"
  by (simp add: store_def take_Suc_conv_app_nth)

lemma feed_payload:
  assumes "9 \<le> unat idx"
      and "unat idx - 9 + length bs \<le> unat (length_p q)"
      and "unat idx - 9 + length bs \<le> length (data q)"
      and "unat idx + length bs \<le> 65536"
  shows "feed h q idx bs =
     (if bs \<noteq> [] \<and> unat idx - 9 + length bs = unat (length_p q)
      then Done (FINGERPRINT_OK h) (q\<lparr>data := store (unat idx - 9) bs (data q)\<rparr>) []
      else More (q\<lparr>data := store (unat idx - 9) bs (data q)\<rparr>) (idx + of_nat (length bs)))"
  using assms
proof (induction bs arbitrary: q idx)
  case Nil
  then show ?case by (simp add: store_Nil)
next
  case (Cons b bs)
  let ?k = "unat idx - 9"
  let ?q1 = "q\<lparr>data := (data q)[?k := b]\<rparr>"
  from Cons.prems have k: "?k < length (data q)" by simp
  have st: "store (Suc ?k) bs ((data q)[?k := b]) = store ?k (b # bs) (data q)"
    using k by (rule store_Cons)
  from Cons.prems(2) have le: "unat idx - 9 + Suc (length bs) \<le> unat (length_p q)" by simp
  show ?case
  proof (cases "unat idx - 8 = unat (length_p q)")
    case True
    with le Cons.prems(1) have "length bs = 0" by arith
    then have "bs = []" by simp
    with True k Cons.prems(1) show ?thesis
      by (simp add: switch_idx_data store_def upd_conv_take_nth_drop)
  next
    case False
    have sw: "switch_idx h q idx b = Break ?q1"
      using False k Cons.prems(1) by (simp add: switch_idx_data)
    show ?thesis
    proof (cases bs)
      case Nil
      with False Cons.prems(1,2) k show ?thesis
        by (auto simp: sw store_def upd_conv_take_nth_drop)
    next
      case (Cons c cs)
      with Cons.prems(4) have lt: "unat idx < 65535" by simp
      then have i1: "unat (idx + 1) = Suc (unat idx)" by (rule unat_inc16)
      have k1: "unat (idx + 1) - 9 = Suc ?k" using Cons.prems(1) i1 by simp
      have "feed h ?q1 (idx + 1) bs =
       (if bs \<noteq> [] \<and> unat (idx + 1) - 9 + length bs = unat (length_p ?q1)
        then Done (FINGERPRINT_OK h) (?q1\<lparr>data := store (unat (idx + 1) - 9) bs (data ?q1)\<rparr>) []
        else More (?q1\<lparr>data := store (unat (idx + 1) - 9) bs (data ?q1)\<rparr>) (idx + 1 + of_nat (length bs)))"
        using Cons.prems i1 by (intro Cons.IH) simp_all
      then show ?thesis
        using False Cons.prems(1,2) by (auto simp: sw k1 st add.assoc)
    qed
  qed
qed

lemma ucast_hi8_back: "(ucast (ucast (drop_bit 8 (w::u16)) :: u8) :: u16) = drop_bit 8 w"
  by (rule bit_word_eqI) (auto simp: bit_simps dest: bit_imp_le_length)

lemma be16_join':
  "push_bit 8 (drop_bit 8 (w::u16)) OR ucast (ucast (w AND 0xFF) :: u8) = w"
  unfolding mask8
  apply (rule bit_word_eqI)
  apply (auto simp: bit_simps)
  apply (metis le_add_diff_inverse not_less)
  done

lemma be16_join:
  "push_bit 8 (ucast (ucast (drop_bit 8 (w::u16)) :: u8)) OR ucast (ucast (w AND 0xFF) :: u8) = w"
  by (simp only: ucast_hi8_back be16_join')

lemma feed_header:
  assumes "length (address q) = 4"
  shows "feed h q 0 (ucast (drop_bit 8 (FINGERPRINT_STARTCODE h)) # ucast (FINGERPRINT_STARTCODE h AND 0xFF)
                      # a0 # a1 # a2 # a3 # ty # lh # ll # body) =
         feed h (q\<lparr>start_code := FINGERPRINT_STARTCODE h, address := [a0, a1, a2, a3], type := ty,
                   length_p := push_bit 8 (ucast lh) OR ucast ll\<rparr>) 9 body"
proof -
  obtain x0 x1 x2 x3 where addr: "address q = [x0, x1, x2, x3]"
    using assms by (auto simp: length_Suc_conv numeral_eq_Suc)
  show ?thesis
    by (simp add: switch_idx_def Let_def ucast_hi8_back be16_join' addr)
qed

lemma getStructuredPacket_feed:
  assumes "ring_wf s"
  shows "case getStructuredPacket h q timeout ticks s of
           Inl e \<Rightarrow> feed h q 0 (heard timeout 0 ticks s) = Stopped e \<or> \<not> fits ticks s
         | Inr (r, q', s') \<Rightarrow>
             ring_wf s' \<and> session s' = session s \<and>
             (case feed h q 0 (heard timeout 0 ticks s) of
                Done r0 p0 rest \<Rightarrow>
                  r = r0 \<and> q' = p0 \<and>
                  pl s' + length rest = pl s + length (heard timeout 0 ticks s)
              | More p0 i0 \<Rightarrow> r = FINGERPRINT_TIMEOUT h \<and> q' = p0
              | Stopped e \<Rightarrow> False)"
  unfolding getStructuredPacket_def
  using getStructuredPacket_loop_feed [where timer = 0 and idx = 0, OF assms] by simp

lemma getStructuredPacket_Done:
  assumes "ring_wf s" "fits ticks s" "feed h q 0 (heard timeout 0 ticks s) = Done r q' rest"
  shows "\<exists>s'. getStructuredPacket h q timeout ticks s = Inr (r, q', s') \<and> ring_wf s' \<and>
              session s' = session s \<and>
              pl s' + length rest = pl s + length (heard timeout 0 ticks s)"
  using getStructuredPacket_feed [OF assms(1), of h q timeout ticks] assms(2,3)
  by (auto split: sum.splits)

lemma getStructuredPacket_More:
  assumes "ring_wf s" "fits ticks s" "feed h q 0 (heard timeout 0 ticks s) = More q' i"
  shows "\<exists>s'. getStructuredPacket h q timeout ticks s = Inr (FINGERPRINT_TIMEOUT h, q', s') \<and>
              ring_wf s' \<and> session s' = session s"
  using getStructuredPacket_feed [OF assms(1), of h q timeout ticks] assms(2,3)
  by (auto split: sum.splits)

lemma getStructuredPacket_Stopped:
  assumes "ring_wf s" "feed h q 0 (heard timeout 0 ticks s) = Stopped e"
  shows "getStructuredPacket h q timeout ticks s = Inl e"
proof (cases "getStructuredPacket h q timeout ticks s")
  case (Inl e')
  then show ?thesis by (cases e, cases e') simp
next
  case (Inr x)
  with getStructuredPacket_feed [OF assms(1), of h q timeout ticks] assms(2)
  show ?thesis by (auto split: prod.splits)
qed

lemma feed_junk:
  "\<forall>j \<in> set junk. ucast j \<noteq> drop_bit 8 (FINGERPRINT_STARTCODE h) \<Longrightarrow>
   feed h q 0 (junk @ bs) = feed h q 0 bs"
  by (induction junk) (simp_all add: switch_idx_def)

lemma feed_bad_start:
  assumes "ucast hi = drop_bit 8 (FINGERPRINT_STARTCODE h)"
      and "push_bit 8 (ucast hi) OR ucast b \<noteq> FINGERPRINT_STARTCODE h"
  shows "feed h q 0 (hi # b # rest) =
           Done (FINGERPRINT_BADPACKET h) (q\<lparr>start_code := push_bit 8 (ucast hi) OR ucast b\<rparr>) rest"
  using assms by (simp add: switch_idx_def Let_def)

lemma unat_be16: "unat (push_bit 8 (ucast (a::u8)) OR ucast (b::u8) :: u16) = 256 * unat a + unat b"
proof -
  have "push_bit 8 (ucast a :: u16) OR ucast b = push_bit 8 (ucast a) + ucast b"
    by (rule disjunctive_add [symmetric]) (auto simp: bit_simps dest: bit_imp_le_length)
  moreover have "unat (push_bit 8 (ucast a :: u16)) = 256 * unat a"
    using unat_u8_bound [of a] by (simp add: push_bit_eq_mult unat_word_ariths unat_ucast_up)
  ultimately show ?thesis
    using unat_u8_bound [of a] unat_u8_bound [of b]
    by (simp add: unat_word_ariths unat_ucast_up)
qed

lemma feed_snoc_More:
  assumes "feed h q idx (bs @ [b]) = More q1 i1"
  shows "\<exists>q0 i0. feed h q idx bs = More q0 i0 \<and>
           (switch_idx h q0 i0 b = Continue q1 \<and> i1 = i0 \<or>
            switch_idx h q0 i0 b = Break q1 \<and> i1 = i0 + 1)"
  using assms by (auto simp: feed_append split: parse.splits flow.splits)

lemma feed_Done_split:
  "feed h q idx bs = Done r q' rest \<Longrightarrow>
     \<exists>pre b q0 i0. bs = pre @ b # rest \<and> feed h q idx pre = More q0 i0 \<and>
                   switch_idx h q0 i0 b = Return r q'"
proof (induction bs arbitrary: q idx)
  case Nil
  then show ?case by simp
next
  case (Cons c cs)
  show ?case
  proof (cases "switch_idx h q idx c")
    case (Continue q1)
    with Cons.prems have "feed h q1 idx cs = Done r q' rest" by simp
    from Cons.IH [OF this] obtain pre b q0 i0 where
      "cs = pre @ b # rest" "feed h q1 idx pre = More q0 i0" "switch_idx h q0 i0 b = Return r q'"
      by blast
    with Continue have "c # cs = (c # pre) @ b # rest \<and> feed h q idx (c # pre) = More q0 i0 \<and>
        switch_idx h q0 i0 b = Return r q'" by simp
    then show ?thesis by blast
  next
    case (Break q1)
    with Cons.prems have "feed h q1 (idx + 1) cs = Done r q' rest" by simp
    from Cons.IH [OF this] obtain pre b q0 i0 where
      "cs = pre @ b # rest" "feed h q1 (idx + 1) pre = More q0 i0" "switch_idx h q0 i0 b = Return r q'"
      by blast
    with Break have "c # cs = (c # pre) @ b # rest \<and> feed h q idx (c # pre) = More q0 i0 \<and>
        switch_idx h q0 i0 b = Return r q'" by simp
    then show ?thesis by blast
  next
    case (Return r1 q1)
    with Cons.prems have "c # cs = [] @ c # rest \<and> feed h q idx [] = More q idx \<and>
        switch_idx h q idx c = Return r q'" by simp
    then show ?thesis by blast
  next
    case (Fault e)
    with Cons.prems show ?thesis by simp
  qed
qed

lemma switch_idx_Continue:
  "switch_idx h q idx b = Continue q1 \<Longrightarrow> idx = 0 \<and> q1 = q"
  by (auto simp: switch_idx_def Let_def split: if_splits)

lemma idx_ge9:
  "(idx::u16) \<noteq> 0 \<Longrightarrow> idx \<noteq> 1 \<Longrightarrow> idx \<noteq> 2 \<Longrightarrow> idx \<noteq> 3 \<Longrightarrow> idx \<noteq> 4 \<Longrightarrow> idx \<noteq> 5 \<Longrightarrow>
   idx \<noteq> 6 \<Longrightarrow> idx \<noteq> 7 \<Longrightarrow> idx \<noteq> 8 \<Longrightarrow> 9 \<le> unat idx"
  by (simp add: word_unat_eq_iff)

lemma switch_idx_Return_OK:
  assumes "switch_idx h q idx b = Return (FINGERPRINT_OK h) q1"
      and "FINGERPRINT_OK h \<noteq> FINGERPRINT_BADPACKET h"
  shows "9 \<le> unat idx \<and> unat idx - 9 < length (data q) \<and> unat idx - 8 = unat (length_p q) \<and>
         q1 = q\<lparr>data := (data q)[unat idx - 9 := b]\<rparr>"
proof -
  from assms have "9 \<le> unat idx"
    by (intro idx_ge9) (auto simp: switch_idx_def Let_def split: if_splits)
  with assms(1) show ?thesis by (auto simp: switch_idx_data split: if_splits)
qed


lemma framed_ex:
  "framed h q bs q1 i1 \<longleftrightarrow>
     (\<exists>pre fr. bs = pre @ fr \<and> length fr = unat i1 \<and>
        (unat i1 = 8 \<longrightarrow> length_p q1 = push_bit 8 (ucast (fr ! 7))) \<and>
        (9 \<le> unat i1 \<longrightarrow>
           take (unat i1 - 9) (data q1) = drop 9 fr \<and> unat i1 - 9 \<le> length (data q1) \<and>
           length_p q1 = push_bit 8 (ucast (fr ! 7)) OR ucast (fr ! 8) \<and>
           (\<exists>q9. feed h q 0 (pre @ take 9 fr) = More q9 9 \<and> length_p q9 = length_p q1 \<and>
                 length (data q9) = length (data q1))))"
  (is "?L \<longleftrightarrow> ?R")
proof
  assume l: ?L
  show ?R
    apply (rule exI [of _ "take (length bs - unat i1) bs"])
    apply (rule exI [of _ "drop (length bs - unat i1) bs"])
    using l unfolding framed_def Let_def
    apply (auto split: parse.splits)
    done
next
  assume ?R
  then obtain pre fr where pf: "bs = pre @ fr" "length fr = unat i1"
    and rest: "unat i1 = 8 \<longrightarrow> length_p q1 = push_bit 8 (ucast (fr ! 7))"
      "9 \<le> unat i1 \<longrightarrow>
           take (unat i1 - 9) (data q1) = drop 9 fr \<and> unat i1 - 9 \<le> length (data q1) \<and>
           length_p q1 = push_bit 8 (ucast (fr ! 7)) OR ucast (fr ! 8) \<and>
           (\<exists>q9. feed h q 0 (pre @ take 9 fr) = More q9 9 \<and> length_p q9 = length_p q1 \<and>
                 length (data q9) = length (data q1))"
    by blast
  from pf have tk: "take (length bs - unat i1) bs = pre" "drop (length bs - unat i1) bs = fr"
    and le: "unat i1 \<le> length bs"
    by simp_all
  from rest le show ?L
    unfolding framed_def Let_def tk by (auto split: parse.splits)
qed

lemma framed_step_Break:
  assumes fr: "framed h q bs q0 i0"
      and fd: "feed h q 0 bs = More q0 i0"
      and sw: "switch_idx h q0 i0 b = Break q1"
  shows "framed h q (bs @ [b]) q1 (i0 + 1)"
proof (cases "unat i0 = 65535")
  case True
  then have "unat (i0 + 1) = 0" by (simp add: unat_word_ariths)
  then show ?thesis
    unfolding framed_ex
    by (intro exI [of _ "bs @ [b]"] exI [of _ "[]"]) simp
next
  case False
  then have lt: "unat i0 < 65535" using unat_u16_bound [of i0] by simp
  then have i1: "unat (i0 + 1) = Suc (unat i0)" by (rule unat_inc16)
  from fr obtain pre fr0 where pf: "bs = pre @ fr0" "length fr0 = unat i0"
    and l8: "unat i0 = 8 \<longrightarrow> length_p q0 = push_bit 8 (ucast (fr0 ! 7))"
    and l9: "9 \<le> unat i0 \<longrightarrow>
           take (unat i0 - 9) (data q0) = drop 9 fr0 \<and> unat i0 - 9 \<le> length (data q0) \<and>
           length_p q0 = push_bit 8 (ucast (fr0 ! 7)) OR ucast (fr0 ! 8) \<and>
           (\<exists>q9. feed h q 0 (pre @ take 9 fr0) = More q9 9 \<and> length_p q9 = length_p q0 \<and>
                 length (data q9) = length (data q0))"
    unfolding framed_ex by blast
  have fd1: "feed h q 0 (bs @ [b]) = More q1 (i0 + 1)"
    by (simp add: feed_append fd sw)
  have c8: "unat (i0 + 1) = 8 \<longrightarrow> length_p q1 = push_bit 8 (ucast ((fr0 @ [b]) ! 7))"
  proof
    assume "unat (i0 + 1) = 8"
    then have "unat i0 = 7" using i1 by simp
    then have "i0 = 7" by (simp add: word_unat_eq_iff)
    with sw pf(2) show "length_p q1 = push_bit 8 (ucast ((fr0 @ [b]) ! 7))"
      by (auto simp: switch_idx_def nth_append)
  qed
  have c9: "9 \<le> unat (i0 + 1) \<longrightarrow>
           take (unat (i0 + 1) - 9) (data q1) = drop 9 (fr0 @ [b]) \<and>
           unat (i0 + 1) - 9 \<le> length (data q1) \<and>
           length_p q1 = push_bit 8 (ucast ((fr0 @ [b]) ! 7)) OR ucast ((fr0 @ [b]) ! 8) \<and>
           (\<exists>q9. feed h q 0 (pre @ take 9 (fr0 @ [b])) = More q9 9 \<and> length_p q9 = length_p q1 \<and>
                 length (data q9) = length (data q1))"
  proof
    assume ge: "9 \<le> unat (i0 + 1)"
    show "take (unat (i0 + 1) - 9) (data q1) = drop 9 (fr0 @ [b]) \<and>
           unat (i0 + 1) - 9 \<le> length (data q1) \<and>
           length_p q1 = push_bit 8 (ucast ((fr0 @ [b]) ! 7)) OR ucast ((fr0 @ [b]) ! 8) \<and>
           (\<exists>q9. feed h q 0 (pre @ take 9 (fr0 @ [b])) = More q9 9 \<and> length_p q9 = length_p q1 \<and>
                 length (data q9) = length (data q1))"
    proof (cases "unat i0 = 8")
      case True
      then have i8: "i0 = 8" by (simp add: word_unat_eq_iff)
      with sw have q1: "q1 = q0\<lparr>length_p := length_p q0 OR ucast b\<rparr>"
        by (auto simp: switch_idx_def)
      have "i0 + 1 = 9" using i8 by simp
      with fd1 pf True have "feed h q 0 (pre @ take 9 (fr0 @ [b])) = More q1 9" by simp
      with True l8 pf(2) i1 q1 show ?thesis
        by (auto simp: nth_append)
    next
      case False
      with ge i1 have ge0: "9 \<le> unat i0" by simp
      with sw have inb: "unat i0 - 9 < length (data q0)"
        and q1: "q1 = q0\<lparr>data := (data q0)[unat i0 - 9 := b]\<rparr>"
        by (auto simp: switch_idx_data split: if_splits)
      have k: "unat (i0 + 1) - 9 = Suc (unat i0 - 9)" using ge0 i1 by simp
      have "take (Suc (unat i0 - 9)) ((data q0)[unat i0 - 9 := b]) =
              take (unat i0 - 9) (data q0) @ [b]"
        using inb by (simp add: take_Suc_conv_app_nth)
      with l9 ge0 pf(2) inb show ?thesis
        by (auto simp: q1 k nth_append)
    qed
  qed
  have a: "bs @ [b] = pre @ (fr0 @ [b])" using pf by simp
  have l: "length (fr0 @ [b]) = unat (i0 + 1)" using pf i1 by simp
  show ?thesis
    unfolding framed_ex using a l c8 c9 by blast
qed

lemma framed_More:
  "feed h q 0 bs = More q1 i1 \<Longrightarrow> framed h q bs q1 i1"
proof (induction bs arbitrary: q1 i1 rule: rev_induct)
  case Nil
  then show ?case by (simp add: framed_ex)
next
  case (snoc b bs)
  from feed_snoc_More [OF snoc.prems] obtain q0 i0 where
    fd: "feed h q 0 bs = More q0 i0" and
    st: "switch_idx h q0 i0 b = Continue q1 \<and> i1 = i0 \<or> switch_idx h q0 i0 b = Break q1 \<and> i1 = i0 + 1"
    by blast
  from st show ?case
  proof
    assume "switch_idx h q0 i0 b = Continue q1 \<and> i1 = i0"
    with switch_idx_Continue [of h q0 i0 b q1] have "i1 = 0" by simp
    then show ?thesis
      unfolding framed_ex by (intro exI [of _ "bs @ [b]"] exI [of _ "[]"]) simp
  next
    assume "switch_idx h q0 i0 b = Break q1 \<and> i1 = i0 + 1"
    with framed_step_Break [OF snoc.IH [OF fd] fd] show ?thesis by simp
  qed
qed


section \<open>The members a command leaves alone\<close>

lemma receiveUART_session:
  "receiveUART c s = Inr s' \<Longrightarrow> session s' = session s"
  by (auto simp: receiveUART_def Let_def session_def split: if_splits)

lemma arrive_session:
  "arrive cs s = Inr s' \<Longrightarrow> session s' = session s"
proof (induction cs arbitrary: s)
  case Nil
  then show ?case by simp
next
  case (Cons c cs)
  then show ?case by (auto split: sum.splits dest: receiveUART_session)
qed

lemma sleep_for_1ms_session:
  "sleep_for_1ms ticks s = Inr (ticks', s') \<Longrightarrow> session s' = session s"
  by (auto simp: sleep_for_1ms_def split: list.splits sum.splits dest: arrive_session)

lemma getStructuredPacket_loop_session:
  "getStructuredPacket_loop h timeout ticks s packet idx timer = Inr (r, packet', s') \<Longrightarrow>
   session s' = session s"
proof (induction h timeout ticks s packet idx timer rule: getStructuredPacket_loop.induct)
  case (1 h timeout ticks s packet idx timer)
  show ?case
  proof (cases "pl s = pe s")
    case True
    show ?thesis
    proof (cases "sleep_for_1ms ticks s")
      case (Inl e)
      with True "1.prems" show ?thesis
        by (subst (asm) getStructuredPacket_loop.simps) simp
    next
      case (Inr x)
      obtain ticks' s1 where x: "x = (ticks', s1)" by (cases x)
      note ss = sleep_for_1ms_session [OF Inr [unfolded x]]
      show ?thesis
      proof (cases "timeout \<le> timer + 1")
        case le: True
        with True Inr x "1.prems" ss show ?thesis
          by (subst (asm) getStructuredPacket_loop.simps) simp
      next
        case gt: False
        from True Inr x gt "1.prems"
        have "getStructuredPacket_loop h timeout ticks' s1 packet idx (timer + 1) = Inr (r, packet', s')"
          by (subst (asm) getStructuredPacket_loop.simps) simp
        from "1.IH"(1) [OF True Inr x [symmetric] gt this] ss show ?thesis by simp
      qed
    qed
  next
    case False
    show ?thesis
    proof (cases "readUARTbuff s")
      case (Inl e)
      with False "1.prems" show ?thesis
        by (subst (asm) getStructuredPacket_loop.simps) simp
    next
      case (Inr x)
      obtain b s1 where x: "x = (b, s1)" by (cases x)
      note ss = readUARTbuff_session [OF Inr [unfolded x]]
      show ?thesis
      proof (cases "switch_idx h packet idx b")
        case (Continue p1)
        from False Inr x Continue "1.prems"
        have "getStructuredPacket_loop h timeout ticks s1 p1 idx timer = Inr (r, packet', s')"
          by (subst (asm) getStructuredPacket_loop.simps) simp
        from "1.IH"(2) [OF False Inr x [symmetric] Continue this] ss show ?thesis by simp
      next
        case (Break p1)
        from False Inr x Break "1.prems"
        have "getStructuredPacket_loop h timeout ticks s1 p1 (idx + 1) timer = Inr (r, packet', s')"
          by (subst (asm) getStructuredPacket_loop.simps) simp
        from "1.IH"(3) [OF False Inr x [symmetric] Break this] ss show ?thesis by simp
      next
        case (Return r1 p1)
        with False Inr x "1.prems" ss show ?thesis
          by (subst (asm) getStructuredPacket_loop.simps) simp
      next
        case (Fault e)
        with False Inr x "1.prems" show ?thesis
          by (subst (asm) getStructuredPacket_loop.simps) simp
      qed
    qed
  qed
qed

lemma writeStructuredPacket_Inr:
  "writeStructuredPacket packet s = Some (Inr s') \<Longrightarrow>
   \<exists>bytes. s' = s\<lparr>R503Serial := R503Serial s @ bytes\<rparr>"
  by (auto simp: writeStructuredPacket_def Let_def serial_write_def
           split: option.splits sum.splits prod.splits if_splits)

lemma send_receive_fields:
  assumes "send_receive h args rest ticks s = Some (Inr (r, packet, s1))"
  shows "status_reg s1 = status_reg s \<and> system_id s1 = system_id s \<and> capacity s1 = capacity s \<and>
         security_level s1 = security_level s \<and> device_addr s1 = device_addr s \<and>
         packet_len s1 = packet_len s \<and> baud_rate s1 = baud_rate s \<and>
         fingerID s1 = fingerID s \<and> confidence s1 = confidence s \<and>
         templateCount s1 = templateCount s"
proof -
  let ?p = "Fingerprint_Packet_ctor h (FINGERPRINT_COMMANDPACKET h) (of_nat (length args)) args rest"
  from assms obtain s0 where w: "writeStructuredPacket ?p s = Some (Inr s0)"
    and g: "getStructuredPacket h ?p (DEFAULTTIMEOUT h) ticks s0 = Inr (r, packet, s1)"
    by (auto simp: send_receive_def Let_def split: option.splits sum.splits)
  from writeStructuredPacket_Inr [OF w] obtain bytes where
    s0: "s0 = s\<lparr>R503Serial := R503Serial s @ bytes\<rparr>" ..
  from g have "session s1 = session s0"
    unfolding getStructuredPacket_def by (rule getStructuredPacket_loop_session)
  then show ?thesis by (simp add: session_def s0)
qed

section \<open>The macro\<close>

lemma ring_R503Serial [simp]:
  "ring_wf (s\<lparr>R503Serial := x\<rparr>) = ring_wf s"
  "fits ticks (s\<lparr>R503Serial := x\<rparr>) = fits ticks s"
  "unread (s\<lparr>R503Serial := x\<rparr>) = unread s"
  "heard timeout timer ticks (s\<lparr>R503Serial := x\<rparr>) = heard timeout timer ticks s"
  by (simp_all add: ring_wf_def fits_def unread_def heard_def)

lemma send_receive_sends:
  assumes "length args \<le> 255"
  shows "\<exists>bytes. send_receive h args rest ticks s =
           Some (getStructuredPacket h
                   (Fingerprint_Packet_ctor h (FINGERPRINT_COMMANDPACKET h) (of_nat (length args)) args rest)
                   (DEFAULTTIMEOUT h) ticks (s\<lparr>R503Serial := R503Serial s @ bytes\<rparr>))"
proof -
  let ?p = "Fingerprint_Packet_ctor h (FINGERPRINT_COMMANDPACKET h) (of_nat (length args)) args rest"
  have n: "unat (length_p ?p) = length args"
    using assms by (simp add: Fingerprint_Packet_ctor_def unat_of_nat)
  have "length (address ?p) = 4" "unat (length_p ?p) \<le> length (data ?p)" "unat (length_p ?p) \<le> 255"
    unfolding n using assms by (simp_all add: Fingerprint_Packet_ctor_def)
  from writeStructuredPacket_bytes [OF this, of s]
  show ?thesis
    unfolding send_receive_def Let_def by (auto simp del: append.simps)
qed

lemma send_receive_Done:
  assumes "length args \<le> 255" and "ring_wf s" and "fits ticks s"
      and "feed h (Fingerprint_Packet_ctor h (FINGERPRINT_COMMANDPACKET h) (of_nat (length args)) args rest)
             0 (heard (DEFAULTTIMEOUT h) 0 ticks s) = Done r q' left"
  shows "\<exists>s1. send_receive h args rest ticks s = Some (Inr (r, q', s1))"
proof -
  from send_receive_sends [OF assms(1), of h rest ticks s] obtain bytes where
    sr: "send_receive h args rest ticks s =
           Some (getStructuredPacket h
                   (Fingerprint_Packet_ctor h (FINGERPRINT_COMMANDPACKET h) (of_nat (length args)) args rest)
                   (DEFAULTTIMEOUT h) ticks (s\<lparr>R503Serial := R503Serial s @ bytes\<rparr>))" ..
  from getStructuredPacket_Done [of "s\<lparr>R503Serial := R503Serial s @ bytes\<rparr>" ticks h _ "DEFAULTTIMEOUT h" r q' left]
    assms(2,3,4)
  show ?thesis unfolding sr by auto
qed

lemma GET_CMD_PACKET_accepts:
  assumes "send_receive h args rest ticks s = Some (Inr (FINGERPRINT_OK h, q', s1))"
      and "type q' = FINGERPRINT_ACKPACKET h"
  shows "GET_CMD_PACKET h args rest ticks s = Some (Inr (Inr (q', s1)))"
  using assms by (simp add: GET_CMD_PACKET_def)

lemma packet_len_code:
  fixes a b :: u8
  defines "w \<equiv> (push_bit 8 (ucast a) OR ucast b :: u16)"
  shows "(w = 0) = (256 * unat a + unat b = 0)"
    and "(w = 1) = (256 * unat a + unat b = 1)"
    and "(w = 2) = (256 * unat a + unat b = 2)"
    and "(w = 3) = (256 * unat a + unat b = 3)"
  unfolding w_def by (simp_all only: word_unat_eq_iff unat_be16) simp_all

lemma feed_frame:
  assumes "length (address q) = 4" and "body \<noteq> []"
      and "256 * unat lh + unat ll = length body"
      and "length body \<le> length (data q)"
      and "length body \<le> 65527"
  shows "feed h q 0 (ucast (drop_bit 8 (FINGERPRINT_STARTCODE h)) # ucast (FINGERPRINT_STARTCODE h AND 0xFF)
                      # a0 # a1 # a2 # a3 # ty # lh # ll # body) =
         Done (FINGERPRINT_OK h)
           (q\<lparr>start_code := FINGERPRINT_STARTCODE h, address := [a0, a1, a2, a3], type := ty,
               length_p := push_bit 8 (ucast lh) OR ucast ll,
               data := body @ drop (length body) (data q)\<rparr>) []"
proof -
  let ?q9 = "q\<lparr>start_code := FINGERPRINT_STARTCODE h, address := [a0, a1, a2, a3], type := ty,
                 length_p := push_bit 8 (ucast lh) OR ucast ll\<rparr>"
  have len: "unat (length_p ?q9) = length body"
    using assms(3) by (simp add: unat_be16)
  have "feed h ?q9 9 body =
               Done (FINGERPRINT_OK h) (?q9\<lparr>data := store 0 body (data ?q9)\<rparr>) []"
    using assms(2,4,5) by (subst feed_payload) (simp_all only: len, simp_all)
  then show ?thesis
    unfolding feed_header [OF assms(1)] by (simp add: store_def)
qed

lemma GET_CMD_PACKET_reply:
  assumes "length args \<le> 255" and "ring_wf s" and "fits ticks s"
      and "heard (DEFAULTTIMEOUT h) 0 ticks s =
             ucast (drop_bit 8 (FINGERPRINT_STARTCODE h)) # ucast (FINGERPRINT_STARTCODE h AND 0xFF)
               # a0 # a1 # a2 # a3 # FINGERPRINT_ACKPACKET h # lh # ll # body"
      and "body \<noteq> []" and "256 * unat lh + unat ll = length body"
      and "length body \<le> length args + length rest"
      and "length body \<le> 65527"
  shows "\<exists>s1. GET_CMD_PACKET h args rest ticks s =
           Some (Inr (Inr (\<lparr>start_code = FINGERPRINT_STARTCODE h, address = [a0, a1, a2, a3],
                              type = FINGERPRINT_ACKPACKET h,
                              length_p = push_bit 8 (ucast lh) OR ucast ll,
                              data = body @ drop (length body) (args @ rest)\<rparr>, s1)))"
proof -
  let ?p = "Fingerprint_Packet_ctor h (FINGERPRINT_COMMANDPACKET h) (of_nat (length args)) args rest"
  let ?q' = "\<lparr>start_code = FINGERPRINT_STARTCODE h, address = [a0, a1, a2, a3],
               type = FINGERPRINT_ACKPACKET h, length_p = push_bit 8 (ucast lh) OR ucast ll,
               data = body @ drop (length body) (args @ rest)\<rparr>"
  have "length (address ?p) = 4" "length body \<le> length (data ?p)"
    using assms(7) by (simp_all add: Fingerprint_Packet_ctor_def)
  from feed_frame [OF this(1) assms(5,6) this(2) assms(8), of h a0 a1 a2 a3 "FINGERPRINT_ACKPACKET h"]
  have "feed h ?p 0 (heard (DEFAULTTIMEOUT h) 0 ticks s) = Done (FINGERPRINT_OK h) ?q' []"
    unfolding assms(4) by (simp add: Fingerprint_Packet_ctor_def)
  from send_receive_Done [OF assms(1,2,3) this] obtain s1 where
    "send_receive h args rest ticks s = Some (Inr (FINGERPRINT_OK h, ?q', s1))" ..
  then have "GET_CMD_PACKET h args rest ticks s = Some (Inr (Inr (?q', s1)))"
    by (rule GET_CMD_PACKET_accepts) simp
  then show ?thesis ..
qed

lemma reads_cursor:
  "ring_wf s \<Longrightarrow> pl s + n \<le> pe s \<Longrightarrow>
   \<exists>s'. reads n s = Inr s' \<and> pl s' = pl s + n \<and> pe s' = pe s \<and> buffUART s' = buffUART s"
proof (induction n arbitrary: s)
  case 0
  then show ?case by simp
next
  case (Suc n)
  then have ne: "pl s \<noteq> pe s" by simp
  note rd = readUARTbuff_unread [OF Suc.prems(1) ne]
  from Suc.IH [OF rd(3)] Suc.prems(2)
  show ?case by (simp add: rd(1))
qed

section \<open>Evaluation at the example values\<close>

lemma writeStructuredPacket_request:
  "writeStructuredPacket request (fresh 64)
      = Some (Inr ((fresh 64)\<lparr>R503Serial := [0xEF, 0x01, 0xFF, 0xFF, 0xFF, 0xFF, 0x01, 0x00, 0x03, 0x0F, 0x00, 0x13]\<rparr>))"
  by (simp add: writeStructuredPacket_def writeStructuredPacket_loop.simps Let_def serial_write_def
        request_def Fingerprint_Packet_ctor_def R503_h_def fresh_def Fingerprint_ctor_def zeroed_def)

lemma fresh_ring:
  "ring_wf (fresh n)" "unread (fresh n) = []" "pl (fresh n) = 0" "pe (fresh n) = 0"
  "length (buffUART (fresh n)) = n" "R503Serial (fresh n) = []"
  by (simp_all add: ring_wf_def unread_def fresh_def Fingerprint_ctor_def zeroed_def)

lemma feed_reply:
  "\<exists>q'. feed R503_h request 0 [0xEF, 0x01, 0xFF, 0xFF, 0xFF, 0xFF, 0x07, 0x00, 0x03, 0x00, 0x00, 0x0A]
           = Done (FINGERPRINT_OK R503_h) q' []"
  by (simp add: switch_idx_def Let_def R503_h_def request_def Fingerprint_Packet_ctor_def)

lemma getParameters_reply:
  "\<exists>packet s1.
     GET_CMD_PACKET R503_h [FINGERPRINT_READSYSPARAM R503_h] (replicate 63 0) [reply_code c] (fresh 64)
       = Some (Inr (Inr (packet, s1))) \<and>
     17 \<le> length (data packet) \<and> data packet ! 0 = FINGERPRINT_OK R503_h \<and>
     data packet ! 13 = 0 \<and> data packet ! 14 = c"
proof -
  have "length [FINGERPRINT_READSYSPARAM R503_h] \<le> 255" "ring_wf (fresh 64)"
       "fits [reply_code c] (fresh 64)"
    by (simp_all add: fresh_ring fits_def reply_code_def)
  moreover have "heard (DEFAULTTIMEOUT R503_h) 0 [reply_code c] (fresh 64) =
      ucast (drop_bit 8 (FINGERPRINT_STARTCODE R503_h)) # ucast (FINGERPRINT_STARTCODE R503_h AND 0xFF)
        # 0xFF # 0xFF # 0xFF # 0xFF # FINGERPRINT_ACKPACKET R503_h # 0x00 # 0x13
        # [0x00, 0x00, 0x00, 0x00, 0x00, 0x00, 0x40, 0x00, 0x00, 0x00, 0x00, 0x00, 0x00, 0x00, c, 0x00, 0x06,
           0x00, 0x60 + c]"
    by (simp add: heard_def fresh_ring reply_code_def R503_h_def)
  moreover have "[0x00, 0x00, 0x00, 0x00, 0x00, 0x00, 0x40, 0x00, 0x00, 0x00, 0x00, 0x00, 0x00, 0x00, c, 0x00, 0x06,
           0x00, 0x60 + c] \<noteq> []"
    "256 * unat (0x00 :: u8) + unat (0x13 :: u8) =
       length [0x00, 0x00, 0x00, 0x00, 0x00, 0x00, 0x40, 0x00, 0x00, 0x00, 0x00, 0x00, 0x00, 0x00, c, 0x00, 0x06,
           0x00, 0x60 + c]"
    "length [0x00, 0x00, 0x00, 0x00, 0x00, 0x00, 0x40, 0x00, 0x00, 0x00, 0x00, 0x00, 0x00, 0x00, c, 0x00, 0x06,
           0x00, 0x60 + c] \<le> length [FINGERPRINT_READSYSPARAM R503_h] + length (replicate 63 (0 :: u8))"
    "length [0x00, 0x00, 0x00, 0x00, 0x00, 0x00, 0x40, 0x00, 0x00, 0x00, 0x00, 0x00, 0x00, 0x00, c, 0x00, 0x06,
           0x00, 0x60 + c] \<le> 65527"
    by simp_all
  ultimately obtain s1 where
    "GET_CMD_PACKET R503_h [FINGERPRINT_READSYSPARAM R503_h] (replicate 63 0) [reply_code c] (fresh 64) =
       Some (Inr (Inr (\<lparr>start_code = FINGERPRINT_STARTCODE R503_h, address = [0xFF, 0xFF, 0xFF, 0xFF],
                          type = FINGERPRINT_ACKPACKET R503_h,
                          length_p = push_bit 8 (ucast (0x00 :: u8)) OR ucast (0x13 :: u8),
                          data = [0x00, 0x00, 0x00, 0x00, 0x00, 0x00, 0x40, 0x00, 0x00, 0x00, 0x00, 0x00, 0x00, 0x00, c, 0x00, 0x06,
           0x00, 0x60 + c] @ drop (length [0x00, 0x00, 0x00, 0x00, 0x00, 0x00, 0x40, 0x00, 0x00, 0x00, 0x00, 0x00, 0x00, 0x00, c, 0x00, 0x06,
           0x00, 0x60 + c]) ([FINGERPRINT_READSYSPARAM R503_h] @ replicate 63 0)\<rparr>, s1)))"
    using GET_CMD_PACKET_reply by blast
  then show ?thesis
    by (intro exI conjI) (assumption, simp_all add: R503_h_def)
qed


section \<open>Serializing, then parsing\<close>

text \<open>
  C2. Let \<open>packet\<close> be an outbound packet: its start code is the constant, its
  length is at most the size of its \<open>data\<close> array and at most 255. Let the bytes
  that \<open>writeStructuredPacket\<close> appends to the serial line for it reach a receiver:
  some are unread in its ring, the others arrive during the ticks, all of them before the
  timeout and inside the receive array. Then \<open>getStructuredPacket\<close>, filling a
  packet \<open>q\<close> whose \<open>data\<close> array has room for the payload and two more
  bytes, returns Ok with the type and the address of \<open>packet\<close>; the length it
  reports is the length of \<open>packet\<close> plus the two checksum bytes, and the first
  bytes of its \<open>data\<close> are the payload of \<open>packet\<close>. It has read the bytes of
  the frame and no other.
\<close>

theorem serialize_parse_round_trip:
  assumes "start_code packet = FINGERPRINT_STARTCODE h"
      and "length (address packet) = 4"
      and "unat (length_p packet) \<le> length (data packet)"
      and "unat (length_p packet) \<le> 255"
      and "writeStructuredPacket packet t = Some (Inr t')"
      and "length (address q) = 4"
      and "unat (length_p packet) + 2 \<le> length (data q)"
      and "ring_wf s" and "fits ticks s"
      and "unread s @ concat ticks = drop (length (R503Serial t)) (R503Serial t')"
      and "length ticks < unat timeout"
  shows "\<exists>q' s'. getStructuredPacket h q timeout ticks s = Inr (FINGERPRINT_OK h, q', s') \<and>
           type q' = type packet \<and> address q' = address packet \<and>
           unat (length_p q') = unat (length_p packet) + 2 \<and>
           take (unat (length_p packet)) (data q') = take (unat (length_p packet)) (data packet) \<and>
           pl s' = pl s + length (unread s @ concat ticks)"
proof -
  let ?n = "unat (length_p packet)"
  let ?payload = "take ?n (data packet)"
  let ?wl = "length_p packet + 2"
  obtain a0 a1 a2 a3 where addr: "address packet = [a0, a1, a2, a3]"
    using assms(2) by (auto simp: length_Suc_conv numeral_eq_Suc)
  obtain c1 c2 where stream: "drop (length (R503Serial t)) (R503Serial t') =
      ucast (drop_bit 8 (FINGERPRINT_STARTCODE h)) # ucast (FINGERPRINT_STARTCODE h AND 0xFF)
       # a0 # a1 # a2 # a3 # type packet # ucast (drop_bit 8 ?wl) # ucast (?wl AND 0xFF)
       # (?payload @ [c1, c2])"
    using assms(5) unfolding writeStructuredPacket_bytes [OF assms(2,3,4)]
    by (auto simp: addr assms(1))
  let ?q9 = "q\<lparr>start_code := FINGERPRINT_STARTCODE h, address := [a0, a1, a2, a3],
                 type := type packet,
                 length_p := push_bit 8 (ucast (ucast (drop_bit 8 ?wl) :: u8)) OR ucast (ucast (?wl AND 0xFF) :: u8)\<rparr>"
  have wl: "unat ?wl = ?n + 2" using assms(4) by (rule unat_wire_length)
  have len9: "length_p ?q9 = ?wl" by (simp add: be16_join)
  have hd: "heard timeout 0 ticks s = unread s @ concat ticks"
    using assms(11) by (simp add: heard_def)
  have pay: "feed h ?q9 9 (?payload @ [c1, c2]) =
      Done (FINGERPRINT_OK h) (?q9\<lparr>data := store 0 (?payload @ [c1, c2]) (data ?q9)\<rparr>) []"
    using assms(3,4,7) wl
    by (subst feed_payload) (simp_all only: len9, simp_all)
  have fd: "feed h q 0 (heard timeout 0 ticks s) =
      Done (FINGERPRINT_OK h) (?q9\<lparr>data := store 0 (?payload @ [c1, c2]) (data ?q9)\<rparr>) []"
    unfolding hd assms(10) stream feed_header [OF assms(6)] pay ..
  from getStructuredPacket_Done [OF assms(8,9) fd]
  obtain s' where run: "getStructuredPacket h q timeout ticks s =
        Inr (FINGERPRINT_OK h, ?q9\<lparr>data := store 0 (?payload @ [c1, c2]) (data ?q9)\<rparr>, s')"
      and wf': "ring_wf s'" and pl': "pl s' = pl s + length (heard timeout 0 ticks s)"
    by auto
  have "take ?n (store 0 (?payload @ [c1, c2]) (data q)) = ?payload"
    using assms(3) by (simp add: store_def)
  moreover have "unat (length_p ?q9) = ?n + 2" by (simp only: len9 wl)
  ultimately show ?thesis
    using run pl' unfolding hd by (intro exI [of _ "?q9\<lparr>data := store 0 (?payload @ [c1, c2]) (data ?q9)\<rparr>"] exI [of _ s']) (simp add: addr)
qed


theorem serialize_parse_round_trip_witness:
  "start_code request = FINGERPRINT_STARTCODE R503_h \<and>
   length (address request) = 4 \<and>
   unat (length_p request) \<le> length (data request) \<and>
   unat (length_p request) \<le> 255 \<and>
   writeStructuredPacket request (fresh 64) =
     Some (Inr ((fresh 64)\<lparr>R503Serial := [0xEF, 0x01, 0xFF, 0xFF, 0xFF, 0xFF, 0x01, 0x00, 0x03, 0x0F, 0x00, 0x13]\<rparr>)) \<and>
   unat (length_p request) + 2 \<le> length (data request) \<and>
   ring_wf (fresh 64) \<and>
   fits [[0xEF, 0x01, 0xFF, 0xFF, 0xFF], [0xFF, 0x01, 0x00, 0x03, 0x0F, 0x00, 0x13]] (fresh 64) \<and>
   unread (fresh 64) @ concat [[0xEF, 0x01, 0xFF, 0xFF, 0xFF], [0xFF, 0x01, 0x00, 0x03, 0x0F, 0x00, 0x13]] =
     drop (length (R503Serial (fresh 64)))
       (R503Serial ((fresh 64)\<lparr>R503Serial := [0xEF, 0x01, 0xFF, 0xFF, 0xFF, 0xFF, 0x01, 0x00, 0x03, 0x0F, 0x00, 0x13]\<rparr>)) \<and>
   length [[0xEF, 0x01, 0xFF, 0xFF, 0xFF], [0xFF, 0x01, 0x00, 0x03, 0x0F, 0x00, 0x13 :: u8]] < unat (1000 :: u16) \<and>
   (\<exists>q' s'. getStructuredPacket R503_h request 1000
               [[0xEF, 0x01, 0xFF, 0xFF, 0xFF], [0xFF, 0x01, 0x00, 0x03, 0x0F, 0x00, 0x13]] (fresh 64)
               = Inr (FINGERPRINT_OK R503_h, q', s') \<and>
            type q' = type request \<and> address q' = address request \<and>
            unat (length_p q') = unat (length_p request) + 2 \<and>
            take (unat (length_p request)) (data q') = take (unat (length_p request)) (data request) \<and>
            pl s' = pl (fresh 64) + length (unread (fresh 64) @
                      concat [[0xEF, 0x01, 0xFF, 0xFF, 0xFF], [0xFF, 0x01, 0x00, 0x03, 0x0F, 0x00, 0x13]]))"
proof -
  let ?ticks = "[[0xEF, 0x01, 0xFF, 0xFF, 0xFF], [0xFF, 0x01, 0x00, 0x03, 0x0F, 0x00, 0x13 :: u8]]"
  let ?t' = "(fresh 64)\<lparr>R503Serial := [0xEF, 0x01, 0xFF, 0xFF, 0xFF, 0xFF, 0x01, 0x00, 0x03, 0x0F, 0x00, 0x13]\<rparr>"
  have h1: "start_code request = FINGERPRINT_STARTCODE R503_h"
    and h2: "length (address request) = 4"
    and h3: "unat (length_p request) \<le> length (data request)"
    and h4: "unat (length_p request) \<le> 255"
    and h7: "unat (length_p request) + 2 \<le> length (data request)"
    by (simp_all add: request_def Fingerprint_Packet_ctor_def R503_h_def)
  have h5: "writeStructuredPacket request (fresh 64) = Some (Inr ?t')"
    by (rule writeStructuredPacket_request)
  have h8: "ring_wf (fresh 64)" and h9: "fits ?ticks (fresh 64)"
    and h10: "unread (fresh 64) @ concat ?ticks = drop (length (R503Serial (fresh 64))) (R503Serial ?t')"
    and h11: "length ?ticks < unat (1000 :: u16)"
    by (simp_all add: fresh_ring fits_def)
  from serialize_parse_round_trip [OF h1 h2 h3 h4 h5 h2 h7 h8 h9 h10 h11]
  show ?thesis using h1 h2 h3 h4 h5 h7 h8 h9 h10 h11 by blast
qed



section \<open>The timeout\<close>

text \<open>
  C4 (as amended). Each byte is awaited by polling \<open>pl == pe\<close> with a sleep of 1 ms,
  and \<open>timer\<close> counts the sleeps of the whole call: it is never set back. So the
  timeout is a budget for the call, not for each byte. For a ring inside its array and
  distinct status constants, \<open>getStructuredPacket\<close> returns Timeout exactly when the
  bytes unread at the call, followed by those that arrive during the first
  \<open>timeout - 1\<close> sleeps, end before the parser reaches a \<open>return\<close>.
\<close>

theorem timeout_budget:
  assumes "ring_wf s" and "fits ticks s"
      and "FINGERPRINT_TIMEOUT h \<noteq> FINGERPRINT_OK h"
      and "FINGERPRINT_TIMEOUT h \<noteq> FINGERPRINT_BADPACKET h"
  shows "(\<exists>q' s'. getStructuredPacket h q timeout ticks s = Inr (FINGERPRINT_TIMEOUT h, q', s')) \<longleftrightarrow>
         (\<exists>q' i. feed h q 0 (unread s @ concat (take (unat timeout - 1) ticks)) = More q' i)"
proof (cases "feed h q 0 (heard timeout 0 ticks s)")
  case (Done r q1 rest)
  from feed_Done_status [OF Done] assms(3,4) have "r \<noteq> FINGERPRINT_TIMEOUT h" by auto
  with getStructuredPacket_Done [OF assms(1,2) Done] Done show ?thesis
    by (auto simp: heard_def)
next
  case (More q1 i1)
  with getStructuredPacket_More [OF assms(1,2) More] show ?thesis
    by (auto simp: heard_def)
next
  case (Stopped e)
  with getStructuredPacket_Stopped [OF assms(1) Stopped] show ?thesis
    by (auto simp: heard_def)
qed


theorem timeout_budget_witness:
  "ring_wf (fresh 64) \<and>
   fits [[0xEF], [0x01], [0xFF], [0xFF], [0xFF], [0xFF], [0x07], [0x00], [0x03], [0x00], [0x00], [0x0A]] (fresh 64) \<and>
   FINGERPRINT_TIMEOUT R503_h \<noteq> FINGERPRINT_OK R503_h \<and>
   FINGERPRINT_TIMEOUT R503_h \<noteq> FINGERPRINT_BADPACKET R503_h \<and>
   ((\<exists>q' s'. getStructuredPacket R503_h request 5
        [[0xEF], [0x01], [0xFF], [0xFF], [0xFF], [0xFF], [0x07], [0x00], [0x03], [0x00], [0x00], [0x0A]]
        (fresh 64) = Inr (FINGERPRINT_TIMEOUT R503_h, q', s')) \<longleftrightarrow>
    (\<exists>q' i. feed R503_h request 0
        (unread (fresh 64) @ concat (take (unat (5 :: u16) - 1)
           [[0xEF], [0x01], [0xFF], [0xFF], [0xFF], [0xFF], [0x07], [0x00], [0x03], [0x00], [0x00], [0x0A]]))
       = More q' i))"
proof -
  let ?ticks = "[[0xEF], [0x01], [0xFF], [0xFF], [0xFF], [0xFF], [0x07], [0x00], [0x03], [0x00], [0x00], [0x0A :: u8]]"
  have h1: "ring_wf (fresh 64)" and h2: "fits ?ticks (fresh 64)"
    by (simp_all add: fresh_ring fits_def)
  have h3: "FINGERPRINT_TIMEOUT R503_h \<noteq> FINGERPRINT_OK R503_h"
    and h4: "FINGERPRINT_TIMEOUT R503_h \<noteq> FINGERPRINT_BADPACKET R503_h"
    by (simp_all add: R503_h_def)
  from timeout_budget [OF h1 h2 h3 h4, of request 5]
  show ?thesis using h1 h2 h3 h4 by blast
qed


text \<open>
  C4 as stated fails: a frame arrives one byte per millisecond, each gap far below the
  timeout of 5, and the fifth sleep of the call returns Timeout.
\<close>

theorem timeout_budget_counterexample:
  "[] \<notin> set [[0xEF], [0x01], [0xFF], [0xFF], [0xFF], [0xFF], [0x07], [0x00], [0x03], [0x00], [0x00], [0x0A :: u8]] \<and>
   1 < unat (5 :: u16) \<and>
   map_sum id fst
     (getStructuredPacket R503_h request 5
        [[0xEF], [0x01], [0xFF], [0xFF], [0xFF], [0xFF], [0x07], [0x00], [0x03], [0x00], [0x00], [0x0A]]
        (fresh 64))
     = Inr (FINGERPRINT_TIMEOUT R503_h) \<and>
   FINGERPRINT_TIMEOUT R503_h \<noteq> FINGERPRINT_OK R503_h"
proof -
  let ?ticks = "[[0xEF], [0x01], [0xFF], [0xFF], [0xFF], [0xFF], [0x07], [0x00], [0x03], [0x00], [0x00], [0x0A :: u8]]"
  have h1: "ring_wf (fresh 64)" and h2: "fits ?ticks (fresh 64)"
    and h3: "heard 5 0 ?ticks (fresh 64) = [0xEF, 0x01, 0xFF, 0xFF]"
    by (simp_all add: fresh_ring fits_def heard_def)
  have "\<exists>q' i. feed R503_h request 0 (heard 5 0 ?ticks (fresh 64)) = More q' i"
    unfolding h3
    by (simp add: switch_idx_def Let_def R503_h_def request_def Fingerprint_Packet_ctor_def)
  then obtain q' i where "feed R503_h request 0 (heard 5 0 ?ticks (fresh 64)) = More q' i" by blast
  from getStructuredPacket_More [OF h1 h2 this]
  obtain s' where "getStructuredPacket R503_h request 5 ?ticks (fresh 64) = Inr (FINGERPRINT_TIMEOUT R503_h, q', s')"
    by auto
  then show ?thesis by (simp add: R503_h_def)
qed


section \<open>Frames that stop early\<close>

text \<open>
  C5. When what reaches the parser before the timeout is the header of a frame followed
  by fewer bytes than the header declares, \<open>getStructuredPacket\<close> returns Timeout,
  however the bytes are spread over the ring and the ticks; Timeout is not Ok. In
  particular a declared length of 5 with 3 bytes received (the witness) is a Timeout, and
  no Ok is returned before as many bytes as declared have been read after the header.
\<close>

theorem short_frame_times_out:
  assumes "ring_wf s" and "fits ticks s"
      and "length (address q) = 4"
      and "heard timeout 0 ticks s =
             ucast (drop_bit 8 (FINGERPRINT_STARTCODE h)) # ucast (FINGERPRINT_STARTCODE h AND 0xFF)
               # a0 # a1 # a2 # a3 # ty # lh # ll # body"
      and "length body < 256 * unat lh + unat ll"
      and "length body \<le> length (data q)"
      and "length body < 65527"
      and "FINGERPRINT_TIMEOUT h \<noteq> FINGERPRINT_OK h"
  shows "\<exists>r q' s'. getStructuredPacket h q timeout ticks s = Inr (r, q', s') \<and>
           r = FINGERPRINT_TIMEOUT h \<and> r \<noteq> FINGERPRINT_OK h"
proof -
  let ?q9 = "q\<lparr>start_code := FINGERPRINT_STARTCODE h, address := [a0, a1, a2, a3], type := ty,
                 length_p := push_bit 8 (ucast lh) OR ucast ll\<rparr>"
  have len: "unat (length_p ?q9) = 256 * unat lh + unat ll"
    by (simp add: unat_be16)
  have "feed h ?q9 9 body = More (?q9\<lparr>data := store 0 body (data ?q9)\<rparr>) (9 + of_nat (length body))"
    using assms(5,6,7) by (subst feed_payload) (simp_all only: len, simp_all)
  then have "feed h q 0 (heard timeout 0 ticks s) =
               More (?q9\<lparr>data := store 0 body (data ?q9)\<rparr>) (9 + of_nat (length body))"
    unfolding assms(4) feed_header [OF assms(3)] .
  from getStructuredPacket_More [OF assms(1,2) this] assms(8)
  show ?thesis by blast
qed

theorem short_frame_times_out_witness:
  "ring_wf (fresh 64) \<and>
   fits [[0xEF, 0x01, 0xFF, 0xFF, 0xFF, 0xFF, 0x07, 0x00, 0x05], [0x01, 0x02, 0x03]] (fresh 64) \<and>
   length (address request) = 4 \<and>
   heard 1000 0 [[0xEF, 0x01, 0xFF, 0xFF, 0xFF, 0xFF, 0x07, 0x00, 0x05], [0x01, 0x02, 0x03]] (fresh 64) =
     ucast (drop_bit 8 (FINGERPRINT_STARTCODE R503_h)) # ucast (FINGERPRINT_STARTCODE R503_h AND 0xFF)
       # 0xFF # 0xFF # 0xFF # 0xFF # 0x07 # 0x00 # 0x05 # [0x01, 0x02, 0x03] \<and>
   length [0x01, 0x02, 0x03 :: u8] < 256 * unat (0x00 :: u8) + unat (0x05 :: u8) \<and>
   length [0x01, 0x02, 0x03 :: u8] \<le> length (data request) \<and>
   length [0x01, 0x02, 0x03 :: u8] < 65527 \<and>
   FINGERPRINT_TIMEOUT R503_h \<noteq> FINGERPRINT_OK R503_h \<and>
   (\<exists>r q' s'. getStructuredPacket R503_h request 1000
                 [[0xEF, 0x01, 0xFF, 0xFF, 0xFF, 0xFF, 0x07, 0x00, 0x05], [0x01, 0x02, 0x03]] (fresh 64)
                 = Inr (r, q', s') \<and>
              r = FINGERPRINT_TIMEOUT R503_h \<and> r \<noteq> FINGERPRINT_OK R503_h)"
proof -
  let ?ticks = "[[0xEF, 0x01, 0xFF, 0xFF, 0xFF, 0xFF, 0x07, 0x00, 0x05], [0x01, 0x02, 0x03 :: u8]]"
  have h1: "ring_wf (fresh 64)" and h2: "fits ?ticks (fresh 64)"
    by (simp_all add: fresh_ring fits_def)
  have h3: "length (address request) = 4"
    and h6: "length [0x01, 0x02, 0x03 :: u8] \<le> length (data request)"
    by (simp_all add: request_def Fingerprint_Packet_ctor_def)
  have h4: "heard 1000 0 ?ticks (fresh 64) =
     ucast (drop_bit 8 (FINGERPRINT_STARTCODE R503_h)) # ucast (FINGERPRINT_STARTCODE R503_h AND 0xFF)
       # 0xFF # 0xFF # 0xFF # 0xFF # 0x07 # 0x00 # 0x05 # [0x01, 0x02, 0x03]"
    by (simp add: heard_def fresh_ring R503_h_def)
  have h5: "length [0x01, 0x02, 0x03 :: u8] < 256 * unat (0x00 :: u8) + unat (0x05 :: u8)"
    and h7: "length [0x01, 0x02, 0x03 :: u8] < 65527"
    and h8: "FINGERPRINT_TIMEOUT R503_h \<noteq> FINGERPRINT_OK R503_h"
    by (simp_all add: R503_h_def)
  from short_frame_times_out [OF h1 h2 h3 h4 h5 h6 h7 h8]
  show ?thesis using h1 h2 h3 h4 h5 h6 h7 h8 by blast
qed


section \<open>The start code\<close>

text \<open>
  C6 (as amended). Bytes that differ from the high byte of the start code are read and
  dropped while \<open>idx\<close> is 0. When the first byte that equals the high byte is followed
  by a byte that does not complete the start code, and both arrive before the timeout,
  \<open>getStructuredPacket\<close> returns BadPacket and has read nothing beyond that second
  byte.
\<close>

theorem bad_start_code:
  assumes "ring_wf s" and "fits ticks s"
      and "heard timeout 0 ticks s = junk @ hi # b # rest"
      and "\<forall>j \<in> set junk. ucast j \<noteq> drop_bit 8 (FINGERPRINT_STARTCODE h)"
      and "ucast hi = drop_bit 8 (FINGERPRINT_STARTCODE h)"
      and "push_bit 8 (ucast hi) OR ucast b \<noteq> FINGERPRINT_STARTCODE h"
  shows "\<exists>q' s'. getStructuredPacket h q timeout ticks s = Inr (FINGERPRINT_BADPACKET h, q', s') \<and>
           pl s' = pl s + length junk + 2"
proof -
  have "feed h q 0 (heard timeout 0 ticks s) =
          Done (FINGERPRINT_BADPACKET h) (q\<lparr>start_code := push_bit 8 (ucast hi) OR ucast b\<rparr>) rest"
    unfolding assms(3) feed_junk [OF assms(4)] by (rule feed_bad_start [OF assms(5,6)])
  from getStructuredPacket_Done [OF assms(1,2) this]
  show ?thesis by (auto simp: assms(3))
qed

theorem bad_start_code_witness:
  "ring_wf (fresh 64) \<and> fits [[0x00, 0xEF, 0x02, 0x55]] (fresh 64) \<and>
   heard 1000 0 [[0x00, 0xEF, 0x02, 0x55]] (fresh 64) = [0x00] @ 0xEF # 0x02 # [0x55] \<and>
   ucast (0x00 :: u8) \<noteq> drop_bit 8 (FINGERPRINT_STARTCODE R503_h) \<and>
   ucast (0xEF :: u8) = drop_bit 8 (FINGERPRINT_STARTCODE R503_h) \<and>
   push_bit 8 (ucast (0xEF :: u8)) OR ucast (0x02 :: u8) \<noteq> FINGERPRINT_STARTCODE R503_h \<and>
   (\<exists>q' s'. getStructuredPacket R503_h request 1000 [[0x00, 0xEF, 0x02, 0x55]] (fresh 64)
               = Inr (FINGERPRINT_BADPACKET R503_h, q', s') \<and>
            pl s' = pl (fresh 64) + length [0x00 :: u8] + 2)"
proof -
  let ?ticks = "[[0x00, 0xEF, 0x02, 0x55 :: u8]]"
  have h1: "ring_wf (fresh 64)" and h2: "fits ?ticks (fresh 64)"
    and h3: "heard 1000 0 ?ticks (fresh 64) = [0x00] @ 0xEF # 0x02 # [0x55]"
    by (simp_all add: fresh_ring fits_def heard_def)
  have h4: "\<forall>j \<in> set [0x00 :: u8]. ucast j \<noteq> drop_bit 8 (FINGERPRINT_STARTCODE R503_h)"
    and h5: "ucast (0xEF :: u8) = drop_bit 8 (FINGERPRINT_STARTCODE R503_h)"
    and h6: "push_bit 8 (ucast (0xEF :: u8)) OR ucast (0x02 :: u8) \<noteq> FINGERPRINT_STARTCODE R503_h"
    by (simp_all add: R503_h_def)
  from bad_start_code [OF h1 h2 h3 h4 h5 h6, of request]
  show ?thesis using h1 h2 h3 h4 h5 h6 by simp
qed


text \<open>
  C6 as stated fails: the first two bytes \<open>0x00, 0xEF\<close> do not combine to the start
  code, yet the parser drops the first, goes on to read 13 bytes in all and returns Ok.
\<close>

theorem bad_start_code_counterexample:
  "push_bit 8 (ucast (0x00 :: u8)) OR ucast (0xEF :: u8) \<noteq> FINGERPRINT_STARTCODE R503_h \<and>
   map_sum id fst
     (getStructuredPacket R503_h request 1000
        [[0x00, 0xEF, 0x01, 0xFF, 0xFF, 0xFF, 0xFF, 0x07, 0x00, 0x03, 0x00, 0x00, 0x0A]] (fresh 64))
     = Inr (FINGERPRINT_OK R503_h) \<and>
   FINGERPRINT_OK R503_h \<noteq> FINGERPRINT_BADPACKET R503_h \<and>
   map_sum id (pl \<circ> snd \<circ> snd)
     (getStructuredPacket R503_h request 1000
        [[0x00, 0xEF, 0x01, 0xFF, 0xFF, 0xFF, 0xFF, 0x07, 0x00, 0x03, 0x00, 0x00, 0x0A]] (fresh 64))
     = Inr 13"
proof -
  let ?ticks = "[[0x00, 0xEF, 0x01, 0xFF, 0xFF, 0xFF, 0xFF, 0x07, 0x00, 0x03, 0x00, 0x00, 0x0A :: u8]]"
  have h1: "ring_wf (fresh 64)" and h2: "fits ?ticks (fresh 64)"
    and h3: "heard 1000 0 ?ticks (fresh 64) =
               [0x00, 0xEF, 0x01, 0xFF, 0xFF, 0xFF, 0xFF, 0x07, 0x00, 0x03, 0x00, 0x00, 0x0A]"
    by (simp_all add: fresh_ring fits_def heard_def)
  have "\<exists>q'. feed R503_h request 0 (heard 1000 0 ?ticks (fresh 64)) = Done (FINGERPRINT_OK R503_h) q' []"
    unfolding h3
    by (simp add: switch_idx_def Let_def R503_h_def request_def Fingerprint_Packet_ctor_def)
  then obtain q' where "feed R503_h request 0 (heard 1000 0 ?ticks (fresh 64)) = Done (FINGERPRINT_OK R503_h) q' []" ..
  from getStructuredPacket_Done [OF h1 h2 this]
  obtain s' where "getStructuredPacket R503_h request 1000 ?ticks (fresh 64) = Inr (FINGERPRINT_OK R503_h, q', s')"
    and "pl s' = 13"
    by (auto simp: h3 fresh_ring)
  then show ?thesis by (simp add: R503_h_def)
qed



section \<open>What an Ok holds\<close>

text \<open>
  C3. Whenever \<open>getStructuredPacket\<close> returns Ok (for a ring inside its array and a
  header whose Ok differs from Timeout and BadPacket), the bytes it has read end with
  nine header bytes followed by as many bytes as the header's length field declares, and
  these bytes, the last two of a frame among them, are the first bytes of \<open>data\<close>:
  none is taken off. No checksum is compared: with any other bytes of the same number
  in their place, and so with any two trailing bytes, the parser returns Ok again and
  stores them.
\<close>

theorem ok_stores_declared_length:
  assumes "ring_wf s"
      and "getStructuredPacket h q timeout ticks s = Inr (FINGERPRINT_OK h, q', s')"
      and "FINGERPRINT_OK h \<noteq> FINGERPRINT_TIMEOUT h"
      and "FINGERPRINT_OK h \<noteq> FINGERPRINT_BADPACKET h"
  shows "\<exists>pre hdr body.
           take (pl s' - pl s) (heard timeout 0 ticks s) = pre @ hdr @ body \<and>
           length hdr = 9 \<and>
           unat (length_p q') = 256 * unat (hdr ! 7) + unat (hdr ! 8) \<and>
           length body = unat (length_p q') \<and>
           take (unat (length_p q')) (data q') = body \<and>
           (\<forall>body' ticks2 s2.
              length body' = length body \<and> ring_wf s2 \<and> fits ticks2 s2 \<and>
              heard timeout 0 ticks2 s2 = pre @ hdr @ body' \<longrightarrow>
              (\<exists>q'' s''. getStructuredPacket h q timeout ticks2 s2
                                = Inr (FINGERPRINT_OK h, q'', s'') \<and>
                       take (length body') (data q'') = body'))"
proof -
  let ?H = "heard timeout 0 ticks s"
  from getStructuredPacket_feed [OF assms(1), of h q timeout ticks] assms(2,3)
  obtain rest where fd: "feed h q 0 ?H = Done (FINGERPRINT_OK h) q' rest"
    and cnt: "pl s' + length rest = pl s + length ?H"
    by (auto split: parse.splits)
  from feed_Done_split [OF fd] obtain pre0 b q0 i0 where
    H: "?H = pre0 @ b # rest" and more: "feed h q 0 pre0 = More q0 i0"
    and ret: "switch_idx h q0 i0 b = Return (FINGERPRINT_OK h) q'"
    by blast
  from switch_idx_Return_OK [OF ret assms(4)]
  have ge: "9 \<le> unat i0" and inb: "unat i0 - 9 < length (data q0)"
    and dl: "unat i0 - 8 = unat (length_p q0)"
    and q': "q' = q0\<lparr>data := (data q0)[unat i0 - 9 := b]\<rparr>"
    by blast+
  from framed_More [OF more] ge obtain pre fr q9 where
    pf: "pre0 = pre @ fr" "length fr = unat i0"
    and dat: "take (unat i0 - 9) (data q0) = drop 9 fr"
    and lp: "length_p q0 = push_bit 8 (ucast (fr ! 7)) OR ucast (fr ! 8)"
    and f9: "feed h q 0 (pre @ take 9 fr) = More q9 9"
    and l9: "length_p q9 = length_p q0" "length (data q9) = length (data q0)"
    unfolding framed_ex by blast
  let ?hdr = "take 9 fr"
  let ?body = "drop 9 fr @ [b]"
  have read: "take (pl s' - pl s) ?H = pre @ ?hdr @ ?body"
  proof -
    from cnt H have "pl s' - pl s = length (pre0 @ [b])" by simp
    then have "take (pl s' - pl s) ?H = pre0 @ [b]" unfolding H by simp
    then show ?thesis by (simp add: pf)
  qed
  have lh: "length ?hdr = 9" using pf(2) ge by simp
  have dlen: "unat (length_p q') = 256 * unat (?hdr ! 7) + unat (?hdr ! 8)"
    by (simp add: q' lp unat_be16)
  have lb: "length ?body = unat (length_p q')"
    using pf(2) ge dl by (simp add: q')
  have k: "unat (length_p q') = Suc (unat i0 - 9)"
    using ge dl by (simp add: q')
  have stored: "take (unat (length_p q')) (data q') = ?body"
    unfolding k using inb dat by (simp add: q' take_Suc_conv_app_nth)
  have indep: "\<exists>q''. feed h q 0 (pre @ ?hdr @ body') = Done (FINGERPRINT_OK h) q'' [] \<and>
                     take (length body') (data q'') = body'"
    if len: "length body' = length ?body" for body'
  proof -
    from len lb k have n: "length body' = Suc (unat i0 - 9)" by simp
    then have ne: "body' \<noteq> []" by auto
    have "feed h q9 9 body' =
            Done (FINGERPRINT_OK h) (q9\<lparr>data := store 0 body' (data q9)\<rparr>) []"
      using n ne inb ge dl unat_u16_bound [of i0]
      by (subst feed_payload) (simp_all add: l9)
    then have "feed h q 0 (pre @ ?hdr @ body') =
            Done (FINGERPRINT_OK h) (q9\<lparr>data := store 0 body' (data q9)\<rparr>) []"
      using f9 by (simp add: feed_append [of h q 0 "pre @ take 9 fr" body', simplified])
    then show ?thesis by (simp add: store_def)
  qed
  have again: "\<exists>q'' s''. getStructuredPacket h q timeout ticks2 s2
                                = Inr (FINGERPRINT_OK h, q'', s'') \<and>
                       take (length body') (data q'') = body'"
    if "length body' = length ?body" and "ring_wf s2" and "fits ticks2 s2"
      and hd2: "heard timeout 0 ticks2 s2 = pre @ ?hdr @ body'" for body' ticks2 s2
  proof -
    from indep [OF that(1)] obtain q'' where
      "feed h q 0 (heard timeout 0 ticks2 s2) = Done (FINGERPRINT_OK h) q'' []"
      and "take (length body') (data q'') = body'"
      unfolding hd2 by blast
    with getStructuredPacket_Done [OF that(2,3) this(1)] show ?thesis by blast
  qed
  show ?thesis
    apply (rule exI [of _ pre])
    apply (rule exI [of _ ?hdr])
    apply (rule exI [of _ ?body])
    using read lh dlen lb stored again apply blast
    done
qed

theorem ok_stores_declared_length_witness:
  "ring_wf (fresh 64) \<and>
   FINGERPRINT_OK R503_h \<noteq> FINGERPRINT_TIMEOUT R503_h \<and>
   FINGERPRINT_OK R503_h \<noteq> FINGERPRINT_BADPACKET R503_h \<and>
   (\<exists>q' s'.
      getStructuredPacket R503_h request 1000
        [[0xEF, 0x01, 0xFF, 0xFF, 0xFF, 0xFF, 0x07, 0x00, 0x03, 0x00, 0x00, 0x0A]] (fresh 64)
        = Inr (FINGERPRINT_OK R503_h, q', s') \<and>
      (\<exists>pre hdr body.
           take (pl s' - pl (fresh 64))
             (heard 1000 0 [[0xEF, 0x01, 0xFF, 0xFF, 0xFF, 0xFF, 0x07, 0x00, 0x03, 0x00, 0x00, 0x0A]] (fresh 64))
             = pre @ hdr @ body \<and>
           length hdr = 9 \<and>
           unat (length_p q') = 256 * unat (hdr ! 7) + unat (hdr ! 8) \<and>
           length body = unat (length_p q') \<and>
           take (unat (length_p q')) (data q') = body \<and>
           (\<forall>body' ticks2 s2.
              length body' = length body \<and> ring_wf s2 \<and> fits ticks2 s2 \<and>
              heard 1000 0 ticks2 s2 = pre @ hdr @ body' \<longrightarrow>
              (\<exists>q'' s''. getStructuredPacket R503_h request 1000 ticks2 s2
                                = Inr (FINGERPRINT_OK R503_h, q'', s'') \<and>
                       take (length body') (data q'') = body'))))"
proof -
  let ?ticks = "[[0xEF, 0x01, 0xFF, 0xFF, 0xFF, 0xFF, 0x07, 0x00, 0x03, 0x00, 0x00, 0x0A :: u8]]"
  have h1: "ring_wf (fresh 64)" and h2: "fits ?ticks (fresh 64)"
    and hd: "heard 1000 0 ?ticks (fresh 64) =
               [0xEF, 0x01, 0xFF, 0xFF, 0xFF, 0xFF, 0x07, 0x00, 0x03, 0x00, 0x00, 0x0A]"
    by (simp_all add: fresh_ring fits_def heard_def)
  have h3: "FINGERPRINT_OK R503_h \<noteq> FINGERPRINT_TIMEOUT R503_h"
    and h4: "FINGERPRINT_OK R503_h \<noteq> FINGERPRINT_BADPACKET R503_h"
    by (simp_all add: R503_h_def)
  from feed_reply obtain q' where
    "feed R503_h request 0 (heard 1000 0 ?ticks (fresh 64)) = Done (FINGERPRINT_OK R503_h) q' []"
    unfolding hd ..
  from getStructuredPacket_Done [OF h1 h2 this] obtain s' where
    run: "getStructuredPacket R503_h request 1000 ?ticks (fresh 64) = Inr (FINGERPRINT_OK R503_h, q', s')"
    by blast
  from ok_stores_declared_length [OF h1 run h3 h4]
  show ?thesis using h1 h3 h4 run by blast
qed



section \<open>getParameters\<close>

text \<open>
  C7. If the send and receive cycle of \<open>getParameters\<close> ends with a status of
  \<open>getStructuredPacket\<close> other than Ok, or with a packet whose type is not the
  acknowledgment type, then \<open>getParameters\<close> returns the communication error, and
  \<open>status_reg\<close>, \<open>system_id\<close>, \<open>capacity\<close>, \<open>security_level\<close>,
  \<open>device_addr\<close>, \<open>packet_len\<close> and \<open>baud_rate\<close> are what they were before
  the call.
\<close>

theorem getParameters_failure:
  assumes "send_receive h [FINGERPRINT_READSYSPARAM h] rest ticks s = Some (Inr (r, packet, s1))"
      and "r \<noteq> FINGERPRINT_OK h \<or> type packet \<noteq> FINGERPRINT_ACKPACKET h"
  shows "getParameters h rest ticks s = Some (Inr (FINGERPRINT_PACKETRECIEVEERR h, s1)) \<and>
         status_reg s1 = status_reg s \<and> system_id s1 = system_id s \<and> capacity s1 = capacity s \<and>
         security_level s1 = security_level s \<and> device_addr s1 = device_addr s \<and>
         packet_len s1 = packet_len s \<and> baud_rate s1 = baud_rate s"
proof -
  from assms have "getParameters h rest ticks s = Some (Inr (FINGERPRINT_PACKETRECIEVEERR h, s1))"
    by (auto simp: getParameters_def GET_CMD_PACKET_def)
  with send_receive_fields [OF assms(1)] show ?thesis by simp
qed


theorem getParameters_failure_witness:
  "\<exists>r packet s1.
     send_receive R503_h [FINGERPRINT_READSYSPARAM R503_h] (replicate 63 0) [[0xEF, 0x02]] (fresh 64)
       = Some (Inr (r, packet, s1)) \<and>
     (r \<noteq> FINGERPRINT_OK R503_h \<or> type packet \<noteq> FINGERPRINT_ACKPACKET R503_h) \<and>
     getParameters R503_h (replicate 63 0) [[0xEF, 0x02]] (fresh 64)
       = Some (Inr (FINGERPRINT_PACKETRECIEVEERR R503_h, s1)) \<and>
     status_reg s1 = status_reg (fresh 64) \<and> system_id s1 = system_id (fresh 64) \<and>
     capacity s1 = capacity (fresh 64) \<and> security_level s1 = security_level (fresh 64) \<and>
     device_addr s1 = device_addr (fresh 64) \<and> packet_len s1 = packet_len (fresh 64) \<and>
     baud_rate s1 = baud_rate (fresh 64)"
proof -
  have "\<exists>q'. feed R503_h
          (Fingerprint_Packet_ctor R503_h (FINGERPRINT_COMMANDPACKET R503_h)
             (of_nat (length [FINGERPRINT_READSYSPARAM R503_h])) [FINGERPRINT_READSYSPARAM R503_h]
             (replicate 63 0))
          0 (heard (DEFAULTTIMEOUT R503_h) 0 [[0xEF, 0x02]] (fresh 64))
        = Done (FINGERPRINT_BADPACKET R503_h) q' []"
    by (simp add: heard_def fresh_ring switch_idx_def Let_def R503_h_def Fingerprint_Packet_ctor_def)
  then obtain q' where fd: "feed R503_h
          (Fingerprint_Packet_ctor R503_h (FINGERPRINT_COMMANDPACKET R503_h)
             (of_nat (length [FINGERPRINT_READSYSPARAM R503_h])) [FINGERPRINT_READSYSPARAM R503_h]
             (replicate 63 0))
          0 (heard (DEFAULTTIMEOUT R503_h) 0 [[0xEF, 0x02]] (fresh 64))
        = Done (FINGERPRINT_BADPACKET R503_h) q' []" ..
  have "length [FINGERPRINT_READSYSPARAM R503_h] \<le> 255" "ring_wf (fresh 64)"
       "fits [[0xEF, 0x02]] (fresh 64)"
    by (simp_all add: fresh_ring fits_def)
  from send_receive_Done [OF this fd] obtain s1 where
    sr: "send_receive R503_h [FINGERPRINT_READSYSPARAM R503_h] (replicate 63 0) [[0xEF, 0x02]] (fresh 64)
       = Some (Inr (FINGERPRINT_BADPACKET R503_h, q', s1))" ..
  have ne: "FINGERPRINT_BADPACKET R503_h \<noteq> FINGERPRINT_OK R503_h \<or> type q' \<noteq> FINGERPRINT_ACKPACKET R503_h"
    by (simp add: R503_h_def)
  from getParameters_failure [OF sr ne] sr ne show ?thesis by blast
qed



text \<open>
  C8 (as amended). When \<open>getParameters\<close> accepts a response, it returns the first
  payload byte, and \<open>packet_len\<close> is decided by the 16-bit value of payload bytes 13
  and 14: 0 gives 32, 1 gives 64, 2 gives 128, 3 gives 256, and every other value is
  stored as it was received.
\<close>

theorem getParameters_packet_len:
  assumes "GET_CMD_PACKET h [FINGERPRINT_READSYSPARAM h] rest ticks s = Some (Inr (Inr (packet, s1)))"
      and "17 \<le> length (data packet)"
  shows "\<exists>s'. getParameters h rest ticks s = Some (Inr (data packet ! 0, s')) \<and>
          (256 * unat (data packet ! 13) + unat (data packet ! 14) = 0 \<longrightarrow> packet_len s' = 32) \<and>
          (256 * unat (data packet ! 13) + unat (data packet ! 14) = 1 \<longrightarrow> packet_len s' = 64) \<and>
          (256 * unat (data packet ! 13) + unat (data packet ! 14) = 2 \<longrightarrow> packet_len s' = 128) \<and>
          (256 * unat (data packet ! 13) + unat (data packet ! 14) = 3 \<longrightarrow> packet_len s' = 256) \<and>
          (3 < 256 * unat (data packet ! 13) + unat (data packet ! 14) \<longrightarrow>
             unat (packet_len s') = 256 * unat (data packet ! 13) + unat (data packet ! 14))"
proof -
  let ?w = "push_bit 8 (ucast (data packet ! 13)) OR ucast (data packet ! 14) :: u16"
  have run: "getParameters h rest ticks s =
               Some (Inr (data packet ! 0, getParameters_fields packet s1))"
    using assms by (simp add: getParameters_def)
  have pl: "packet_len (getParameters_fields packet s1) =
              (if ?w = 0 then 32 else if ?w = 1 then 64 else if ?w = 2 then 128
               else if ?w = 3 then 256 else ?w)"
    by (simp add: getParameters_fields_def Let_def)
  define c where "c = 256 * unat (data packet ! 13) + unat (data packet ! 14)"
  have pc: "packet_len (getParameters_fields packet s1) =
              (if c = 0 then 32 else if c = 1 then 64 else if c = 2 then 128
               else if c = 3 then 256 else ?w)"
    unfolding pl packet_len_code c_def ..
  have "unat ?w = c" unfolding c_def by (rule unat_be16)
  with pc run show ?thesis
    unfolding c_def [symmetric]
    by (intro exI [of _ "getParameters_fields packet s1"]) auto
qed


theorem getParameters_packet_len_witness:
  "\<exists>packet s1.
     GET_CMD_PACKET R503_h [FINGERPRINT_READSYSPARAM R503_h] (replicate 63 0) [reply_code 1] (fresh 64)
       = Some (Inr (Inr (packet, s1))) \<and>
     17 \<le> length (data packet) \<and>
     256 * unat (data packet ! 13) + unat (data packet ! 14) = 1 \<and>
     (\<exists>s'. getParameters R503_h (replicate 63 0) [reply_code 1] (fresh 64)
             = Some (Inr (data packet ! 0, s')) \<and> packet_len s' = 64)"
proof -
  from getParameters_reply [of 1] obtain packet s1 where
    acc: "GET_CMD_PACKET R503_h [FINGERPRINT_READSYSPARAM R503_h] (replicate 63 0) [reply_code 1] (fresh 64)
       = Some (Inr (Inr (packet, s1)))"
    and len: "17 \<le> length (data packet)"
    and d: "data packet ! 13 = 0" "data packet ! 14 = 1"
    by blast
  have code: "256 * unat (data packet ! 13) + unat (data packet ! 14) = 1" by (simp add: d)
  from getParameters_packet_len [OF acc len] code
  have "\<exists>s'. getParameters R503_h (replicate 63 0) [reply_code 1] (fresh 64)
             = Some (Inr (data packet ! 0, s')) \<and> packet_len s' = 64"
    by auto
  with acc len code show ?thesis by blast
qed


text \<open>
  C8 as stated fails: an accepted response whose status byte is Ok and whose bytes 13 and
  14 are \<open>0x00, 0x07\<close> leaves \<open>packet_len = 7\<close>, which is none of 32, 64, 128, 256.
\<close>

theorem getParameters_packet_len_counterexample:
  "map_option (map_sum id fst)
     (getParameters R503_h (replicate 63 0) [reply_code 7] (fresh 64))
     = Some (Inr (FINGERPRINT_OK R503_h)) \<and>
   map_option (map_sum id (packet_len \<circ> snd))
     (getParameters R503_h (replicate 63 0) [reply_code 7] (fresh 64))
     = Some (Inr 7) \<and>
   (7 :: u16) \<notin> {32, 64, 128, 256}"
proof -
  from getParameters_reply [of 7] obtain packet s1 where
    acc: "GET_CMD_PACKET R503_h [FINGERPRINT_READSYSPARAM R503_h] (replicate 63 0) [reply_code 7] (fresh 64)
       = Some (Inr (Inr (packet, s1)))"
    and len: "17 \<le> length (data packet)"
    and d: "data packet ! 0 = FINGERPRINT_OK R503_h" "data packet ! 13 = 0" "data packet ! 14 = 7"
    by blast
  have run: "getParameters R503_h (replicate 63 0) [reply_code 7] (fresh 64) =
               Some (Inr (FINGERPRINT_OK R503_h, getParameters_fields packet s1))"
    using acc len d(1) by (simp add: getParameters_def)
  have "packet_len (getParameters_fields packet s1) = 7"
    by (simp add: getParameters_fields_def Let_def d)
  with run show ?thesis by simp
qed


section \<open>fingerFastSearch\<close>





section \<open>The cursors of the ring\<close>

text \<open>
  C10. The wrap test is \<open>pe > buffUART + sizeof(buffUART)\<close>, so each cursor takes
  every offset from 0 to \<open>sizeof(buffUART)\<close>: from the constructed object, after
  \<open>k\<close> received bytes, all of them read, both cursors are at offset \<open>k\<close>, for every
  \<open>k\<close> up to the size of the array. At \<open>k = sizeof(buffUART)\<close>, and only there, the
  next \<open>receiveUART\<close> stores through \<open>buffUART + sizeof(buffUART)\<close>, one element
  past the array, and the next \<open>readUARTbuff\<close> loads from there.
\<close>

theorem cursors_reach_the_end:
  assumes "k \<le> length (buffUART raw)"
  shows "\<exists>s s2. arrive (replicate k c) (Fingerprint_ctor password raw) = Inr s \<and>
           reads k s = Inr s2 \<and> pe s2 = k \<and> pl s2 = k \<and>
           length (buffUART s2) = length (buffUART raw) \<and>
           (receiveUART c' s2 = Inl OutOfBounds \<longleftrightarrow> k = length (buffUART raw)) \<and>
           (readUARTbuff s2 = Inl OutOfBounds \<longleftrightarrow> k = length (buffUART raw))"
proof -
  let ?s0 = "Fingerprint_ctor password raw"
  have wf0: "ring_wf ?s0" and c0: "pe ?s0 = 0" "pl ?s0 = 0"
    and l0: "length (buffUART ?s0) = length (buffUART raw)"
    by (simp_all add: ring_wf_def Fingerprint_ctor_def)
  from arrive_fits [OF wf0, of "replicate k c"] assms obtain s where
    ar: "arrive (replicate k c) ?s0 = Inr s"
    by (auto simp: c0 l0)
  from arrive_Inr [OF wf0 ar] have wf: "ring_wf s" and cs: "pe s = k" "pl s = 0"
    and ls: "length (buffUART s) = length (buffUART raw)"
    by (simp_all add: c0 l0)
  from reads_cursor [OF wf, of k] obtain s2 where
    rd: "reads k s = Inr s2" and c2: "pl s2 = k" "pe s2 = k" and b2: "buffUART s2 = buffUART s"
    by (auto simp: cs)
  have "receiveUART c' s2 = Inl OutOfBounds \<longleftrightarrow> k = length (buffUART raw)"
    using assms by (auto simp: receiveUART_def Let_def c2 b2 ls)
  moreover have "readUARTbuff s2 = Inl OutOfBounds \<longleftrightarrow> k = length (buffUART raw)"
    using assms by (auto simp: readUARTbuff_def Let_def c2 b2 ls)
  ultimately show ?thesis
    using ar rd c2 b2 ls by auto
qed

theorem cursors_reach_the_end_witness:
  "(4 :: nat) \<le> length (buffUART (zeroed 4)) \<and>
   (\<exists>s s2. arrive (replicate 4 0x55) (Fingerprint_ctor 0 (zeroed 4)) = Inr s \<and>
           reads 4 s = Inr s2 \<and> pe s2 = 4 \<and> pl s2 = 4 \<and>
           length (buffUART s2) = length (buffUART (zeroed 4)) \<and>
           (receiveUART 0xAA s2 = Inl OutOfBounds \<longleftrightarrow> 4 = length (buffUART (zeroed 4))) \<and>
           (readUARTbuff s2 = Inl OutOfBounds \<longleftrightarrow> 4 = length (buffUART (zeroed 4))))"
proof -
  have h: "(4 :: nat) \<le> length (buffUART (zeroed 4))" by (simp add: zeroed_def)
  from cursors_reach_the_end [OF h, of "0x55" 0 "0xAA"] h show ?thesis by blast
qed


end
